theory Spec2Isabelle
  imports Main "HOL-Library.Sublist" "HOL-Library.Multiset" "HOL-Library.Word"
begin

unbundle bit_operations_syntax

section \<open>Go library functions used by failhook\<close>

text \<open>
  A Go \<^verbatim>\<open>string\<close> is a sequence of bytes; it is modelled as a \<^typ>\<open>string\<close>, whose
  characters are bytes.  Go's \<^verbatim>\<open>int\<close> is modelled as \<^typ>\<open>int\<close>; no arithmetic is performed
  on exit codes, so overflow plays no role.
\<close>

subsection \<open>\<^verbatim>\<open>fmt.Sprintf("%d", n)\<close>\<close>

definition digit :: "nat \<Rightarrow> char" where
  "digit d = ''0123456789'' ! (d mod 10)"

function decimal :: "nat \<Rightarrow> string" where
  "decimal n = (if n < 10 then [digit n] else decimal (n div 10) @ [digit n])"
  by pat_completeness auto
termination
  by (relation "measure id") auto

declare decimal.simps [simp del]

definition Sprintf_d :: "int \<Rightarrow> string" where
  "Sprintf_d i = (if i < 0 then CHR ''-'' # decimal (nat (- i)) else decimal (nat i))"

subsection \<open>\<^verbatim>\<open>utf8.DecodeRuneInString\<close>: width of the first rune\<close>

definition cont :: "nat \<Rightarrow> bool" where
  "cont b = (0x80 \<le> b \<and> b \<le> 0xBF)"

text \<open>The accepted range of the second byte, by first byte (Go's \<^verbatim>\<open>acceptRanges\<close>).\<close>

definition accept_lo :: "nat \<Rightarrow> nat" where
  "accept_lo b0 = (if b0 = 0xE0 then 0xA0 else if b0 = 0xF0 then 0x90 else 0x80)"

definition accept_hi :: "nat \<Rightarrow> nat" where
  "accept_hi b0 = (if b0 = 0xED then 0x9F else if b0 = 0xF4 then 0x8F else 0xBF)"

text \<open>
  The number of bytes \<^verbatim>\<open>utf8.DecodeRuneInString\<close> consumes: 0 on the empty string, the
  length of a well-formed encoding, and 1 on an ill-formed or truncated one.
\<close>

definition rune_width :: "string \<Rightarrow> nat" where
  "rune_width s =
     (case map of_char (take 4 s) of
        [] \<Rightarrow> 0
      | b0 # rest \<Rightarrow>
          if b0 < (0x80 :: nat) then 1
          else if 0xC2 \<le> b0 \<and> b0 \<le> 0xDF then
            (case rest of b1 # _ \<Rightarrow> if cont b1 then 2 else 1 | _ \<Rightarrow> 1)
          else if 0xE0 \<le> b0 \<and> b0 \<le> 0xEF then
            (case rest of
               b1 # b2 # _ \<Rightarrow>
                 if accept_lo b0 \<le> b1 \<and> b1 \<le> accept_hi b0 \<and> cont b2 then 3 else 1
             | _ \<Rightarrow> 1)
          else if 0xF0 \<le> b0 \<and> b0 \<le> 0xF4 then
            (case rest of
               b1 # b2 # b3 # _ \<Rightarrow>
                 if accept_lo b0 \<le> b1 \<and> b1 \<le> accept_hi b0 \<and> cont b2 \<and> cont b3 then 4 else 1
             | _ \<Rightarrow> 1)
          else 1)"

subsection \<open>\<^verbatim>\<open>strings.TrimSpace\<close>\<close>

text \<open>
  The UTF-8 encodings of the runes for which \<^verbatim>\<open>unicode.IsSpace\<close> holds: tab, line feed,
  vertical tab, form feed, carriage return, space, U+0085, U+00A0, U+1680, U+2000 to U+200A,
  U+2028, U+2029, U+202F, U+205F and U+3000.  A well-formed encoding decodes to one rune
  only, so a string starts (ends) with a space rune exactly when one of these byte sequences
  is a prefix (suffix) of it.
\<close>

definition space_encodings :: "string list" where
  "space_encodings =
     [[CHR 0x09], [CHR 0x0A], [CHR 0x0B], [CHR 0x0C], [CHR 0x0D], [CHR 0x20],
      [CHR 0xC2, CHR 0x85], [CHR 0xC2, CHR 0xA0], [CHR 0xE1, CHR 0x9A, CHR 0x80],
      [CHR 0xE2, CHR 0x80, CHR 0x80], [CHR 0xE2, CHR 0x80, CHR 0x81],
      [CHR 0xE2, CHR 0x80, CHR 0x82], [CHR 0xE2, CHR 0x80, CHR 0x83],
      [CHR 0xE2, CHR 0x80, CHR 0x84], [CHR 0xE2, CHR 0x80, CHR 0x85],
      [CHR 0xE2, CHR 0x80, CHR 0x86], [CHR 0xE2, CHR 0x80, CHR 0x87],
      [CHR 0xE2, CHR 0x80, CHR 0x88], [CHR 0xE2, CHR 0x80, CHR 0x89],
      [CHR 0xE2, CHR 0x80, CHR 0x8A], [CHR 0xE2, CHR 0x80, CHR 0xA8],
      [CHR 0xE2, CHR 0x80, CHR 0xA9], [CHR 0xE2, CHR 0x80, CHR 0xAF],
      [CHR 0xE2, CHR 0x81, CHR 0x9F], [CHR 0xE3, CHR 0x80, CHR 0x80]]"

text \<open>Strip leading occurrences of the given encodings, one rune at a time.\<close>

function strip_runes :: "string list \<Rightarrow> string \<Rightarrow> string" where
  "strip_runes encs s =
     (case find (\<lambda>enc. enc \<noteq> [] \<and> prefix enc s) encs of
        None \<Rightarrow> s
      | Some enc \<Rightarrow> strip_runes encs (drop (length enc) s))"
  by pat_completeness auto
termination
proof (relation "measure (\<lambda>(encs, s). length s)")
  show "wf (measure (\<lambda>(encs, s). length s))" by simp
next
  fix encs :: "string list" and s enc :: string
  assume "find (\<lambda>enc. enc \<noteq> [] \<and> prefix enc s) encs = Some enc"
  then have "enc \<noteq> []" and "prefix enc s"
    by (auto simp: find_Some_iff)
  then have "s \<noteq> []" by auto
  with \<open>enc \<noteq> []\<close> show "((encs, drop (length enc) s), (encs, s)) \<in> measure (\<lambda>(encs, s). length s)"
    by simp
qed

declare strip_runes.simps [simp del]

definition TrimLeft :: "string \<Rightarrow> string" where
  "TrimLeft s = strip_runes space_encodings s"

definition TrimRight :: "string \<Rightarrow> string" where
  "TrimRight s = rev (strip_runes (map rev space_encodings) (rev s))"

text \<open>\<^verbatim>\<open>strings.TrimSpace\<close> trims on the left, then on the right.\<close>

definition strings_TrimSpace :: "string \<Rightarrow> string" where
  "strings_TrimSpace s = TrimRight (TrimLeft s)"

subsection \<open>\<^verbatim>\<open>strings.Contains\<close>, \<^verbatim>\<open>strings.Join\<close> and \<^verbatim>\<open>strings.Replace\<close> with \<^verbatim>\<open>n = -1\<close>\<close>

definition strings_Contains :: "string \<Rightarrow> string \<Rightarrow> bool" where
  "strings_Contains s substr = sublist substr s"

fun strings_Join :: "string list \<Rightarrow> string \<Rightarrow> string" where
  "strings_Join [] sep = []"
| "strings_Join [a] sep = a"
| "strings_Join (a # b # rest) sep = a @ sep @ strings_Join (b # rest) sep"

text \<open>
  For a non-empty \<^verbatim>\<open>old\<close>: scan from the left, replace the leftmost occurrence, and go on
  behind it (occurrences do not overlap).
\<close>

fun replace_all :: "string \<Rightarrow> string \<Rightarrow> string \<Rightarrow> string" where
  "replace_all old new [] = []"
| "replace_all old new (c # cs) =
     (if old \<noteq> [] \<and> prefix old (c # cs)
      then new @ replace_all old new (drop (length old) (c # cs))
      else c # replace_all old new cs)"

text \<open>For an empty \<^verbatim>\<open>old\<close>: \<^verbatim>\<open>new\<close> is written after every rune.\<close>

function insert_after_runes :: "string \<Rightarrow> string \<Rightarrow> string" where
  "insert_after_runes new s =
     (if s = [] then []
      else take (rune_width s) s @ new @ insert_after_runes new (drop (rune_width s) s))"
  by pat_completeness auto
termination
proof (relation "measure (\<lambda>(new, s). length s)")
  show "wf (measure (\<lambda>(new, s). length s))" by simp
next
  fix new s :: string
  assume "s \<noteq> []"
  then have "0 < rune_width s"
    by (cases s) (simp_all add: rune_width_def split: list.split)
  with \<open>s \<noteq> []\<close>
  show "((new, drop (rune_width s) s), (new, s)) \<in> measure (\<lambda>(new, s). length s)"
    by simp
qed

declare insert_after_runes.simps [simp del]

text \<open>
  \<^verbatim>\<open>strings.Replace(s, old, new, -1)\<close>: \<^verbatim>\<open>s\<close> itself when \<^verbatim>\<open>old == new\<close> or when
  \<^verbatim>\<open>old\<close> does not occur; with an empty \<^verbatim>\<open>old\<close>, \<^verbatim>\<open>new\<close> is put in front of the string
  and behind every rune.
\<close>

definition strings_Replace :: "string \<Rightarrow> string \<Rightarrow> string \<Rightarrow> string" where
  "strings_Replace s old new =
     (if old = new then s
      else if old = [] then new @ insert_after_runes new s
      else if \<not> strings_Contains s old then s
      else replace_all old new s)"

subsection \<open>\<^verbatim>\<open>url.QueryEscape\<close>\<close>

definition alnum :: "char \<Rightarrow> bool" where
  "alnum c =
     (let n = (of_char c :: nat)
      in (97 \<le> n \<and> n \<le> 122) \<or> (65 \<le> n \<and> n \<le> 90) \<or> (48 \<le> n \<and> n \<le> 57))"

text \<open>\<^verbatim>\<open>shouldEscape(c, encodeQueryComponent)\<close>: only letters, digits and \<^verbatim>\<open>-_.~\<close> are kept.\<close>

definition shouldEscape :: "char \<Rightarrow> bool" where
  "shouldEscape c = (\<not> alnum c \<and> c \<notin> set ''-_.~'')"

definition upperhex :: "nat \<Rightarrow> char" where
  "upperhex d = ''0123456789ABCDEF'' ! (d mod 16)"

definition escape_byte :: "char \<Rightarrow> string" where
  "escape_byte c =
     (if shouldEscape c then
        (if c = CHR '' '' then ''+''
         else [CHR ''%'', upperhex (of_char c div 16), upperhex (of_char c)])
      else [c])"

definition url_QueryEscape :: "string \<Rightarrow> string" where
  "url_QueryEscape s = concat (map escape_byte s)"

section \<open>Package handlers: the placeholder registry\<close>

text \<open>
  The built-in time placeholders call \<^verbatim>\<open>time.Now().Format(layout)\<close>.  A reading of the wall
  clock is represented by its rendering in the three layouts the registry uses.
\<close>

record WallClock =
  rfc3339 :: string
  date :: string
  time_of_day :: string

text \<open>
  A \<^verbatim>\<open>PlaceholderFunc\<close> is a Go closure of the exit code and the output; the clock it may
  read when it is called is its first argument here.  It computes a string and does nothing
  else, as the closures of \<^verbatim>\<open>NewPlaceholderRegistry\<close> do.
\<close>

type_synonym PlaceholderFunc = "WallClock \<Rightarrow> int \<Rightarrow> string \<Rightarrow> string"

record PlaceholderRegistry =
  placeholders :: "string \<rightharpoonup> PlaceholderFunc"

text \<open>The methods have a pointer receiver: each returns the registry as it leaves it.\<close>

definition Register :: "string \<Rightarrow> PlaceholderFunc \<Rightarrow> PlaceholderRegistry \<Rightarrow> PlaceholderRegistry" where
  "Register placeholder fn pr = pr\<lparr>placeholders := (placeholders pr)(placeholder \<mapsto> fn)\<rparr>"

definition NewPlaceholderRegistry :: PlaceholderRegistry where
  "NewPlaceholderRegistry =
     (Register ''__TIME__'' (\<lambda>now _ _. time_of_day now)
     (Register ''__DATE__'' (\<lambda>now _ _. date now)
     (Register ''__TIMESTAMP__'' (\<lambda>now _ _. rfc3339 now)
     (Register ''__OUTPUT__'' (\<lambda>_ _ output. output)
     (Register ''__STATUS_CODE__'' (\<lambda>_ exitCode _. Sprintf_d exitCode)
       \<lparr>placeholders = Map.empty\<rparr>)))))"

text \<open>
  A \<^verbatim>\<open>range\<close> over a Go map visits every key once, in an order the language leaves open.
  The order of one pass is a parameter of the model; it is admissible for a registry when it
  lists the registered tokens without repetition.
\<close>

definition range_order :: "PlaceholderRegistry \<Rightarrow> string list \<Rightarrow> bool" where
  "range_order pr order = (distinct order \<and> set order = dom (placeholders pr))"

text \<open>
  The environment of one substitution pass: the order in which the map is visited and the
  clock reading each token's function sees.
\<close>

record Pass =
  visit :: "string list"
  clock :: "string \<Rightarrow> WallClock"

text \<open>
  The loop of \<^verbatim>\<open>Replace\<close>.  Its state is the result so far and the registry the
  receiver points to.
\<close>

fun Replace_loop ::
  "(string \<Rightarrow> WallClock) \<Rightarrow> int \<Rightarrow> string \<Rightarrow> string list \<Rightarrow>
   string \<times> PlaceholderRegistry \<Rightarrow> string \<times> PlaceholderRegistry" where
  "Replace_loop clk exitCode output [] st = st"
| "Replace_loop clk exitCode output (placeholder # rest) (result, pr) =
     (case placeholders pr placeholder of
        None \<Rightarrow> Replace_loop clk exitCode output rest (result, pr)
      | Some fn \<Rightarrow>
          (let replacement = fn (clk placeholder) exitCode output
           in Replace_loop clk exitCode output rest
                (strings_Replace result placeholder replacement, pr)))"

definition Replace ::
  "Pass \<Rightarrow> string \<Rightarrow> int \<Rightarrow> string \<Rightarrow> PlaceholderRegistry \<Rightarrow> string \<times> PlaceholderRegistry" where
  "Replace p text exitCode output pr = Replace_loop (clock p) exitCode output (visit p) (text, pr)"

text \<open>The loop of \<^verbatim>\<open>ReplaceURLEncoded\<close>: the value is escaped before it is substituted.\<close>

fun ReplaceURLEncoded_loop ::
  "(string \<Rightarrow> WallClock) \<Rightarrow> int \<Rightarrow> string \<Rightarrow> string list \<Rightarrow>
   string \<times> PlaceholderRegistry \<Rightarrow> string \<times> PlaceholderRegistry" where
  "ReplaceURLEncoded_loop clk exitCode output [] st = st"
| "ReplaceURLEncoded_loop clk exitCode output (placeholder # rest) (result, pr) =
     (case placeholders pr placeholder of
        None \<Rightarrow> ReplaceURLEncoded_loop clk exitCode output rest (result, pr)
      | Some fn \<Rightarrow>
          (let replacement = url_QueryEscape (fn (clk placeholder) exitCode output)
           in ReplaceURLEncoded_loop clk exitCode output rest
                (strings_Replace result placeholder replacement, pr)))"

definition ReplaceURLEncoded ::
  "Pass \<Rightarrow> string \<Rightarrow> int \<Rightarrow> string \<Rightarrow> PlaceholderRegistry \<Rightarrow> string \<times> PlaceholderRegistry" where
  "ReplaceURLEncoded p text exitCode output pr =
     ReplaceURLEncoded_loop (clock p) exitCode output (visit p) (text, pr)"

section \<open>Package handlers: the failure handlers\<close>

text \<open>A Go \<^verbatim>\<open>error\<close> is represented by its message; \<^verbatim>\<open>nil\<close> is \<^const>\<open>None\<close>.\<close>

type_synonym error = string

text \<open>
  The body of the Slack request is kept as a JSON value, the object with its members in the
  order of the struct's fields, not as the bytes \<^verbatim>\<open>json.Marshal\<close> writes for it: how the
  strings are escaped is left out.
\<close>

datatype json = JString string | JObject "(string \<times> json) list"

text \<open>
  \<^verbatim>\<open>json.Marshal\<close> coerces a string to valid UTF-8: a byte from 0x80 on at which
  \<^verbatim>\<open>utf8.DecodeRuneInString\<close> finds no well-formed encoding (it returns \<^verbatim>\<open>RuneError\<close> with
  width 1) becomes U+FFFD, the bytes EF BF BD; every other rune is kept.
\<close>

function coerce_utf8 :: "string \<Rightarrow> string" where
  "coerce_utf8 s =
     (if s = [] then []
      else if (of_char (hd s) :: nat) \<ge> 0x80 \<and> rune_width s = 1
      then [CHR 0xEF, CHR 0xBF, CHR 0xBD] @ coerce_utf8 (drop 1 s)
      else take (rune_width s) s @ coerce_utf8 (drop (rune_width s) s))"
  by pat_completeness auto
termination
proof (relation "measure length")
  show "wf (measure length)" by simp
next
  fix s :: string
  assume "s \<noteq> []"
  then show "(drop 1 s, s) \<in> measure length" by simp
next
  fix s :: string
  assume "s \<noteq> []"
  then have "0 < rune_width s"
    by (cases s) (simp_all add: rune_width_def split: list.split)
  with \<open>s \<noteq> []\<close> show "(drop (rune_width s) s, s) \<in> measure length" by simp
qed

declare coerce_utf8.simps [simp del]

text \<open>What the handlers do to the world outside the process, in the order they do it.\<close>

datatype effect =
    Exec string "string list"
  | HTTPGet string
  | HTTPPost string string json
  | SyslogOpen
  | SyslogErr string
  | Foreign string

type_synonym World = "effect list"

text \<open>
  The answers of the outside world.  Each may depend on everything done so far: the pass
  of a \<^verbatim>\<open>range\<close> over a registry, the exit of a shell, the reply of an HTTP server (an error, or
  the status code of the response), the syslog daemon.
\<close>

record Env =
  pass_at :: "World \<Rightarrow> Pass"
  sh_Run :: "World \<Rightarrow> string \<Rightarrow> error option"
  http_Get :: "World \<Rightarrow> string \<Rightarrow> error + int"
  http_Post :: "World \<Rightarrow> string \<Rightarrow> string \<Rightarrow> json \<Rightarrow> error + int"
  syslog_New :: "World \<Rightarrow> error option"
  syslog_Err :: "World \<Rightarrow> string \<Rightarrow> error option"

record CommandHandler =
  command :: string
  command_registry :: PlaceholderRegistry

record WebhookHandler =
  webhookURL :: string
  webhook_registry :: PlaceholderRegistry

record SyslogHandler =
  syslog_message :: string
  syslog_registry :: PlaceholderRegistry

record SlackHandler =
  slack_webhookURL :: string
  slack_message :: string
  channel :: string
  username :: string
  slack_registry :: PlaceholderRegistry

record SlackMessage =
  Text :: string
  Channel :: string
  Username :: string

definition NewCommandHandler :: "string \<Rightarrow> CommandHandler" where
  "NewCommandHandler c = \<lparr>command = c, command_registry = NewPlaceholderRegistry\<rparr>"

definition NewWebhookHandler :: "string \<Rightarrow> WebhookHandler" where
  "NewWebhookHandler u = \<lparr>webhookURL = u, webhook_registry = NewPlaceholderRegistry\<rparr>"

definition NewSyslogHandler :: "string \<Rightarrow> SyslogHandler" where
  "NewSyslogHandler m = \<lparr>syslog_message = m, syslog_registry = NewPlaceholderRegistry\<rparr>"

definition WithChannel :: "string \<Rightarrow> SlackHandler \<Rightarrow> SlackHandler" where
  "WithChannel c h = h\<lparr>channel := c\<rparr>"

definition WithUsername :: "string \<Rightarrow> SlackHandler \<Rightarrow> SlackHandler" where
  "WithUsername u h = h\<lparr>username := u\<rparr>"

definition NewSlackHandler ::
  "string \<Rightarrow> string \<Rightarrow> (SlackHandler \<Rightarrow> SlackHandler) list \<Rightarrow> SlackHandler" where
  "NewSlackHandler u m options =
     foldl (\<lambda>handler option. option handler)
       \<lparr>slack_webhookURL = u, slack_message = m, channel = [], username = ''FailHook'',
        slack_registry = NewPlaceholderRegistry\<rparr>
       options"

definition CommandHandler_Handle ::
  "Env \<Rightarrow> CommandHandler \<Rightarrow> int \<Rightarrow> string \<Rightarrow> World \<Rightarrow> error option \<times> World" where
  "CommandHandler_Handle env h exitCode output w =
     (let cmd = fst (Replace (pass_at env w) (command h) exitCode output (command_registry h))
      in (sh_Run env w cmd, w @ [Exec ''sh'' [''-c'', cmd]]))"

definition WebhookHandler_Handle ::
  "Env \<Rightarrow> WebhookHandler \<Rightarrow> int \<Rightarrow> string \<Rightarrow> World \<Rightarrow> error option \<times> World" where
  "WebhookHandler_Handle env h exitCode output w =
     (let url = fst (ReplaceURLEncoded (pass_at env w) (webhookURL h) exitCode output
                       (webhook_registry h));
          w' = w @ [HTTPGet url]
      in case http_Get env w url of
           Inl err \<Rightarrow> (Some err, w')
         | Inr StatusCode \<Rightarrow>
             if StatusCode \<ge> 400
             then (Some (''webhook returned status code '' @ Sprintf_d StatusCode), w')
             else (None, w'))"

definition SyslogHandler_Handle ::
  "Env \<Rightarrow> SyslogHandler \<Rightarrow> int \<Rightarrow> string \<Rightarrow> World \<Rightarrow> error option \<times> World" where
  "SyslogHandler_Handle env h exitCode output w =
     (let message = fst (Replace (pass_at env w) (syslog_message h) exitCode output
                           (syslog_registry h));
          w1 = w @ [SyslogOpen]
      in case syslog_New env w of
           Some err \<Rightarrow> (Some err, w1)
         | None \<Rightarrow> (syslog_Err env w1 message, w1 @ [SyslogErr message]))"

text \<open>
  \<^verbatim>\<open>json.Marshal\<close> of a \<^verbatim>\<open>SlackMessage\<close>: \<^verbatim>\<open>text\<close> has no \<^verbatim>\<open>omitempty\<close>, \<^verbatim>\<open>channel\<close> and
  \<^verbatim>\<open>username\<close> have it (a string is empty when its length is zero).  Marshalling a struct
  of strings has no error.
\<close>

definition json_Marshal :: "SlackMessage \<Rightarrow> error + json" where
  "json_Marshal m =
     Inr (JObject
       ([(''text'', JString (coerce_utf8 (Text m)))]
        @ (if Channel m = [] then [] else [(''channel'', JString (coerce_utf8 (Channel m)))])
        @ (if Username m = [] then [] else [(''username'', JString (coerce_utf8 (Username m)))])))"

definition SlackHandler_Handle ::
  "Env \<Rightarrow> SlackHandler \<Rightarrow> int \<Rightarrow> string \<Rightarrow> World \<Rightarrow> error option \<times> World" where
  "SlackHandler_Handle env h exitCode output w =
     (let message = fst (Replace (pass_at env w) (slack_message h) exitCode output
                           (slack_registry h));
          slackMsg = \<lparr>Text = message, Channel = [], Username = username h\<rparr>;
          slackMsg = (if channel h \<noteq> [] then slackMsg\<lparr>Channel := channel h\<rparr> else slackMsg)
      in case json_Marshal slackMsg of
           Inl err \<Rightarrow> (Some (''error marshaling Slack message: '' @ err), w)
         | Inr payload \<Rightarrow>
             (let w' = w @ [HTTPPost (slack_webhookURL h) ''application/json'' payload]
              in case http_Post env w (slack_webhookURL h) ''application/json'' payload of
                   Inl err \<Rightarrow> (Some (''error sending Slack message: '' @ err), w')
                 | Inr StatusCode \<Rightarrow>
                     if StatusCode \<noteq> 200
                     then (Some (''slack API returned status code '' @ Sprintf_d StatusCode), w')
                     else (None, w')))"

text \<open>
  A value of the interface \<^verbatim>\<open>FailureHandler\<close> carries its dynamic type.  \<open>Custom\<close> stands
  for any other implementation: its two methods.
\<close>

datatype FailureHandler =
    Command CommandHandler
  | Webhook WebhookHandler
  | Syslog SyslogHandler
  | Slack SlackHandler
  | Custom "int \<Rightarrow> string \<Rightarrow> World \<Rightarrow> error option \<times> World" string

fun Handle :: "Env \<Rightarrow> FailureHandler \<Rightarrow> int \<Rightarrow> string \<Rightarrow> World \<Rightarrow> error option \<times> World" where
  "Handle env (Command h) = CommandHandler_Handle env h"
| "Handle env (Webhook h) = WebhookHandler_Handle env h"
| "Handle env (Syslog h) = SyslogHandler_Handle env h"
| "Handle env (Slack h) = SlackHandler_Handle env h"
| "Handle env (Custom handle description) = handle"

fun Description :: "FailureHandler \<Rightarrow> string" where
  "Description (Command h) = ''Execute command: '' @ command h"
| "Description (Webhook h) = ''Call webhook: '' @ webhookURL h"
| "Description (Syslog h) = ''Send to syslog: '' @ syslog_message h"
| "Description (Slack h) = ''Send to Slack: '' @ slack_message h"
| "Description (Custom handle description) = description"

section \<open>Package main: the supervisor\<close>

text \<open>
  What the process itself does, in order: a line on standard output, a line on standard
  error, the usage text, and a call of a handler's \<^verbatim>\<open>Handle\<close> with its arguments and what it
  returned.
\<close>

datatype action =
    Stdout string
  | Stderr string
  | Usage
  | Call FailureHandler int string "error option"

definition nl :: string where
  "nl = [CHR 0x0A]"

record FailHook =
  handlers :: "FailureHandler list"
  debug :: bool

definition NewFailHook :: "bool \<Rightarrow> FailHook" where
  "NewFailHook d = \<lparr>handlers = [], debug = d\<rparr>"

definition AddHandler :: "FailureHandler \<Rightarrow> FailHook \<Rightarrow> FailHook \<times> action list" where
  "AddHandler handler fh =
     (fh\<lparr>handlers := handlers fh @ [handler]\<rparr>,
      if debug fh then [Stdout (''Added handler: '' @ Description handler @ nl)] else [])"

subsection \<open>\<^verbatim>\<open>RunCommand\<close>\<close>

text \<open>
  \<^verbatim>\<open>syscall.WaitStatus\<close> as Linux defines it: the process exited when the low seven bits
  are zero, and then its exit status is the next byte; \<^verbatim>\<open>ExitStatus\<close> is \<open>-1\<close> otherwise.
\<close>

definition Exited :: "32 word \<Rightarrow> bool" where
  "Exited wstatus = (wstatus AND 0x7F = 0)"

definition ExitStatus :: "32 word \<Rightarrow> int" where
  "ExitStatus wstatus = (if Exited wstatus then uint (drop_bit 8 wstatus AND 0xFF) else - 1)"

text \<open>The process was ended by a signal: the low seven bits are neither 0 nor 0x7F.\<close>

definition Signaled :: "32 word \<Rightarrow> bool" where
  "Signaled wstatus = (wstatus AND 0x7F \<noteq> 0x7F \<and> wstatus AND 0x7F \<noteq> 0)"

text \<open>
  The error of \<^verbatim>\<open>cmd.Run()\<close>: an \<^verbatim>\<open>*exec.ExitError\<close>, whose \<^verbatim>\<open>Sys()\<close> is a
  \<^verbatim>\<open>syscall.WaitStatus\<close> or something else, or an error of another type (the command could
  not be started).
\<close>

datatype sys = WaitStatus "32 word" | OtherSys

datatype cmd_error = ExitError sys | OtherError

text \<open>
  One run of the child: what it wrote to the two buffers, the error of \<^verbatim>\<open>cmd.Run()\<close>, and
  the rendering of the time it took.
\<close>

record ChildRun =
  stdout_buf :: string
  stderr_buf :: string
  run_err :: "cmd_error option"
  elapsed :: string

definition RunCommand ::
  "FailHook \<Rightarrow> string \<Rightarrow> string list \<Rightarrow> ChildRun \<Rightarrow>
   action list \<times> (int \<times> string \<times> cmd_error option)" where
  "RunCommand fh cmd args child =
     (let tr1 = (if debug fh
                 then [Stdout (''Running command: '' @ cmd @ '' '' @ strings_Join args '' '' @ nl)]
                 else []);
          err = run_err child;
          tr2 = (if debug fh then [Stdout (''Command completed in '' @ elapsed child @ nl)] else []);
          exitCode =
            (case err of
               None \<Rightarrow> 0
             | Some (ExitError (WaitStatus status)) \<Rightarrow> ExitStatus status
             | Some (ExitError OtherSys) \<Rightarrow> 1
             | Some OtherError \<Rightarrow> 1);
          output = strings_TrimSpace (stdout_buf child @ stderr_buf child)
      in (tr1 @ tr2, (exitCode, output, err)))"

subsection \<open>\<^verbatim>\<open>HandleFailure\<close>\<close>

fun HandleFailure_loop ::
  "Env \<Rightarrow> bool \<Rightarrow> int \<Rightarrow> string \<Rightarrow> FailureHandler list \<Rightarrow> action list \<times> World \<Rightarrow>
   action list \<times> World" where
  "HandleFailure_loop env dbg exitCode output [] st = st"
| "HandleFailure_loop env dbg exitCode output (handler # rest) (tr, w) =
     (let tr1 = (if dbg then tr @ [Stdout (''Executing handler: '' @ Description handler @ nl)]
                 else tr);
          (err, w') = Handle env handler exitCode output w;
          tr2 = tr1 @ [Call handler exitCode output err];
          tr3 = (case err of
                   None \<Rightarrow> tr2
                 | Some e \<Rightarrow>
                     tr2 @ [Stderr (''Error with handler '' @ Description handler @ '': '' @ e @ nl)])
      in HandleFailure_loop env dbg exitCode output rest (tr3, w'))"

definition HandleFailure ::
  "Env \<Rightarrow> FailHook \<Rightarrow> int \<Rightarrow> string \<Rightarrow> World \<Rightarrow> action list \<times> World" where
  "HandleFailure env fh exitCode output w =
     HandleFailure_loop env (debug fh) exitCode output (handlers fh) ([], w)"

subsection \<open>\<^verbatim>\<open>main\<close>\<close>

text \<open>The variables the flags are bound to, with the defaults of their declarations.\<close>

record Options =
  opt_command :: string
  opt_webhook :: string
  opt_syslogMsg :: string
  opt_slackWebhook :: string
  opt_slackMsg :: string
  opt_timeout :: int
  opt_debug :: bool
  opt_showUsage :: bool

definition defaults :: Options where
  "defaults =
     \<lparr>opt_command = [], opt_webhook = [], opt_syslogMsg = [], opt_slackWebhook = [],
      opt_slackMsg = ''Command failed with exit code __STATUS_CODE__'' @ nl @ ''```'' @ nl
                     @ ''__OUTPUT__'' @ nl @ ''```'',
      opt_timeout = 0, opt_debug = False, opt_showUsage = False\<rparr>"

text \<open>
  Package \<^verbatim>\<open>flag\<close> reads the arguments from left to right and assigns each flag it meets to
  its variable.  Its lexing is not reproduced: the arguments before \<^verbatim>\<open>--\<close> are read by a
  function \<open>read_flags\<close> into the sequence of assignments they denote, or into the exit status with
  which \<^verbatim>\<open>flag.ExitOnError\<close> leaves the process.
\<close>

datatype flag =
    Flag_c string
  | Flag_w string
  | Flag_s string
  | Flag_slack_webhook string
  | Flag_slack_msg string
  | Flag_timeout int
  | Flag_d bool
  | Flag_h bool

fun set_flag :: "Options \<Rightarrow> flag \<Rightarrow> Options" where
  "set_flag v (Flag_c x) = v\<lparr>opt_command := x\<rparr>"
| "set_flag v (Flag_w x) = v\<lparr>opt_webhook := x\<rparr>"
| "set_flag v (Flag_s x) = v\<lparr>opt_syslogMsg := x\<rparr>"
| "set_flag v (Flag_slack_webhook x) = v\<lparr>opt_slackWebhook := x\<rparr>"
| "set_flag v (Flag_slack_msg x) = v\<lparr>opt_slackMsg := x\<rparr>"
| "set_flag v (Flag_timeout n) = v\<lparr>opt_timeout := n\<rparr>"
| "set_flag v (Flag_d b) = v\<lparr>opt_debug := b\<rparr>"
| "set_flag v (Flag_h b) = v\<lparr>opt_showUsage := b\<rparr>"

definition Parse :: "flag list \<Rightarrow> Options" where
  "Parse fs = foldl set_flag defaults fs"

text \<open>\<^verbatim>\<open>ctx.Err()\<close> once \<^verbatim>\<open>RunCommand\<close> has returned.\<close>

datatype ctx_error = NotDone | DeadlineExceeded | Canceled

text \<open>
  Lines 180 to 192: the handlers are registered from the variables.  \<open>add\<close> is the call
  \<^verbatim>\<open>failhook.AddHandler(handler)\<close>, with what it prints put behind what was printed before.
\<close>

definition add :: "FailureHandler \<Rightarrow> FailHook \<times> action list \<Rightarrow> FailHook \<times> action list" where
  "add handler st = (case AddHandler handler (fst st) of (fh, tr) \<Rightarrow> (fh, snd st @ tr))"

definition main_register :: "Options \<Rightarrow> FailHook \<Rightarrow> FailHook \<times> action list" where
  "main_register v failhook =
     (let st0 = (failhook, []);
          st1 = (if opt_command v \<noteq> []
                 then add (Command (NewCommandHandler (opt_command v))) st0 else st0);
          st2 = (if opt_webhook v \<noteq> []
                 then add (Webhook (NewWebhookHandler (opt_webhook v))) st1 else st1);
          st3 = (if opt_syslogMsg v \<noteq> []
                 then add (Syslog (NewSyslogHandler (opt_syslogMsg v))) st2 else st2);
          st4 = (if opt_slackWebhook v \<noteq> []
                 then add (Slack (NewSlackHandler (opt_slackWebhook v) (opt_slackMsg v) [])) st3
                 else st3)
      in st4)"

text \<open>Lines 197 to 206: the result of \<^verbatim>\<open>RunCommand\<close> is reclassified from the context.\<close>

definition main_classify ::
  "ctx_error \<Rightarrow> int \<Rightarrow> int \<times> string \<times> cmd_error option \<Rightarrow> action list \<times> int \<times> string" where
  "main_classify ctxErr timeout r =
     (case r of (exitCode, output, err) \<Rightarrow>
        if ctxErr = DeadlineExceeded then
          ([Stderr (''Command timed out after '' @ Sprintf_d timeout @ '' seconds'' @ nl)],
           124, ''Command timed out after '' @ Sprintf_d timeout @ '' seconds'')
        else if ctxErr = Canceled \<and> err \<noteq> None then
          ([Stderr (''Command was interrupted'' @ nl)], 130, ''Command was interrupted'')
        else ([], exitCode, output))"

text \<open>
  Lines 208 to 221.  The first component is the exit status of the process: the argument of
  \<^verbatim>\<open>os.Exit\<close>, and 0 when \<^verbatim>\<open>main\<close> returns.
\<close>

definition main_finish ::
  "Env \<Rightarrow> FailHook \<Rightarrow> bool \<Rightarrow> int \<Rightarrow> string \<Rightarrow> World \<Rightarrow> int \<times> action list \<times> World" where
  "main_finish env failhook dbg exitCode output w =
     (if exitCode = 0 then
        (0, (if dbg then [Stdout (''Command succeeded, exiting normally'' @ nl)] else []), w)
      else
        (case HandleFailure env failhook exitCode output w of
           (tr, w') \<Rightarrow>
             (0,
              (if dbg
               then [Stdout (''Command failed with exit code '' @ Sprintf_d exitCode
                             @ '', executing handlers'' @ nl)]
               else []) @ tr,
              w')))"

text \<open>
  What the run of the monitored command under the context amounts to: the child's run,
  whether the child was started at all, the context's error afterwards, and the signal.
  The goroutine that waits for an interrupt or termination signal runs beside \<^verbatim>\<open>main\<close>;
  when a signal arrives, \<open>signal_at\<close> is the number of actions \<^verbatim>\<open>main\<close> still performs, from
  the registration of the handlers on, before the goroutine's line is printed.
\<close>

record Monitored =
  child_run :: ChildRun
  spawned :: bool
  ctx_after :: ctx_error
  signal_at :: "nat option"

text \<open>The line the signal goroutine prints in debug mode, put among the actions of \<^verbatim>\<open>main\<close>.\<close>

definition signal_line :: "bool \<Rightarrow> nat option \<Rightarrow> action list \<Rightarrow> action list" where
  "signal_line dbg sig tr =
     (case sig of
        None \<Rightarrow> tr
      | Some k \<Rightarrow>
          if dbg
          then take k tr @ [Stdout (''Received interrupt signal, canceling command...'' @ nl)]
               @ drop k tr
          else tr)"

text \<open>
  The whole of \<^verbatim>\<open>main\<close>.  \<open>run\<close> is the run of the monitored command under the context
  (command, arguments, timeout).  Slicing \<^verbatim>\<open>os.Args[1:sepIndex]\<close> panics when the
  separator is the first argument; a panic ends the process with status 2.
\<close>

definition sepIndex_of :: "string list \<Rightarrow> nat option" where
  "sepIndex_of args =
     (if ''--'' \<in> set args then Some (length (takeWhile (\<lambda>arg. arg \<noteq> ''--'') args)) else None)"

definition usage_error :: "World \<Rightarrow> int \<times> action list \<times> World" where
  "usage_error w =
     (1, [Usage, Stdout (''Error: Monitored command must be specified after --'' @ nl)], w)"

definition main ::
  "Env \<Rightarrow> (string list \<Rightarrow> int + flag list) \<Rightarrow>
   (string \<Rightarrow> string list \<Rightarrow> int \<Rightarrow> Monitored) \<Rightarrow>
   string list \<Rightarrow> World \<Rightarrow> int \<times> action list \<times> World" where
  "main env read_flags run os_Args w =
     (case sepIndex_of os_Args of
        None \<Rightarrow> usage_error w
      | Some sepIndex \<Rightarrow>
          if sepIndex + 1 = length os_Args then usage_error w
          else if sepIndex < 1 then (2, [], w)
          else
            (case read_flags (take (sepIndex - 1) (drop 1 os_Args)) of
               Inl status \<Rightarrow> (status, [], w)
             | Inr fs \<Rightarrow>
                 (let v = Parse fs in
                  if opt_showUsage v then (0, [Usage], w)
                  else
                    (let monitoredCmd = os_Args ! (sepIndex + 1);
                         monitoredArgs = drop (sepIndex + 2) os_Args;
                         tr0 = (if opt_debug v
                                then [Stdout (''Monitoring command: '' @ monitoredCmd @ '' ''
                                              @ strings_Join monitoredArgs '' '' @ nl)]
                                else []);
                         (failhook, tr1) = main_register v (NewFailHook (opt_debug v));
                         mon = run monitoredCmd monitoredArgs (opt_timeout v);
                         w1 = (if spawned mon then w @ [Exec monitoredCmd monitoredArgs] else w);
                         (tr2, r) = RunCommand failhook monitoredCmd monitoredArgs (child_run mon);
                         (tr3, exitCode, output) =
                           main_classify (ctx_after mon) (opt_timeout v) r;
                         (status, tr4, w2) =
                           main_finish env failhook (opt_debug v) exitCode output w1
                     in (status,
                         tr0 @ signal_line (opt_debug v) (signal_at mon) (tr1 @ tr2 @ tr3 @ tr4),
                         w2)))))"

section \<open>Observations and sample inputs\<close>

text \<open>The calls of \<^verbatim>\<open>Handle\<close> in a run, and the lines written to standard error.\<close>

fun calls :: "action list \<Rightarrow> (FailureHandler \<times> int \<times> string \<times> error option) list" where
  "calls [] = []"
| "calls (Call h e out r # tr) = (h, e, out, r) # calls tr"
| "calls (a # tr) = calls tr"

fun stderr_lines :: "action list \<Rightarrow> string list" where
  "stderr_lines [] = []"
| "stderr_lines (Stderr l # tr) = l # stderr_lines tr"
| "stderr_lines (a # tr) = stderr_lines tr"

text \<open>The line \<^verbatim>\<open>HandleFailure\<close> writes for a call that returned an error.\<close>

definition error_report :: "FailureHandler \<times> int \<times> string \<times> error option \<Rightarrow> string list" where
  "error_report c =
     (case c of
        (h, e, out, None) \<Rightarrow> []
      | (h, e, out, Some err) \<Rightarrow> [''Error with handler '' @ Description h @ '': '' @ err @ nl])"

text \<open>A pass over the built-in registry, a quiet environment, and two runs of a child.\<close>

definition sample_clock :: WallClock where
  "sample_clock = \<lparr>rfc3339 = ''2025-01-02T03:04:05Z'', date = ''2025-01-02'', time_of_day = ''03:04:05''\<rparr>"

definition sample_pass :: Pass where
  "sample_pass =
     \<lparr>visit = [''__DATE__'', ''__OUTPUT__'', ''__TIME__'', ''__STATUS_CODE__'', ''__TIMESTAMP__''],
      clock = (\<lambda>_. sample_clock)\<rparr>"

definition sample_env :: Env where
  "sample_env =
     \<lparr>pass_at = (\<lambda>_. sample_pass), sh_Run = (\<lambda>_ _. None), http_Get = (\<lambda>_ _. Inr 200),
      http_Post = (\<lambda>_ _ _ _. Inr 200), syslog_New = (\<lambda>_. None), syslog_Err = (\<lambda>_ _. None)\<rparr>"

definition exit_42 :: ChildRun where
  "exit_42 =
     \<lparr>stdout_buf = [], stderr_buf = [], run_err = Some (ExitError (WaitStatus 0x2A00)),
      elapsed = ''3ms''\<rparr>"

text \<open>A child ended by signal 9.\<close>

definition killed :: ChildRun where
  "killed =
     \<lparr>stdout_buf = [], stderr_buf = [], run_err = Some (ExitError (WaitStatus 0x0009)),
      elapsed = ''3ms''\<rparr>"

definition two_lines :: ChildRun where
  "two_lines = \<lparr>stdout_buf = ''a'' @ nl, stderr_buf = ''b'' @ nl, run_err = None, elapsed = ''3ms''\<rparr>"

definition failing :: FailureHandler where
  "failing = Custom (\<lambda>e out w. (Some ''refused'', w @ [Foreign out])) ''first''"

definition passing :: FailureHandler where
  "passing = Custom (\<lambda>e out w. (None, w @ [Foreign out])) ''second''"

text \<open>
  Strings made of space runes only, and strings that start or end with a space rune.
\<close>

definition spaces :: "string \<Rightarrow> bool" where
  "spaces s = (\<exists>es. set es \<subseteq> set space_encodings \<and> s = concat es)"

definition leading_space :: "string \<Rightarrow> bool" where
  "leading_space s = (find (\<lambda>enc. enc \<noteq> [] \<and> prefix enc s) space_encodings \<noteq> None)"

definition trailing_space :: "string \<Rightarrow> bool" where
  "trailing_space s = (find (\<lambda>enc. enc \<noteq> [] \<and> suffix enc s) space_encodings \<noteq> None)"

text \<open>
  The combined output as the specification words it: each buffer trimmed, the two
  concatenated, and the whole trimmed again.
\<close>

definition spec_combinedOutput :: "string \<Rightarrow> string \<Rightarrow> string" where
  "spec_combinedOutput out err = strings_TrimSpace (strings_TrimSpace out @ strings_TrimSpace err)"

text \<open>The command line \<^verbatim>\<open>failhook -c true -- sh -c "exit 42"\<close> and the run of its child.\<close>

definition sample_Args :: "string list" where
  "sample_Args = [''failhook'', ''-c'', ''true'', ''--'', ''sh'', ''-c'', ''exit 42'']"

definition sample_flags :: "string list \<Rightarrow> int + flag list" where
  "sample_flags args = (if args = [''-c'', ''true''] then Inr [Flag_c ''true''] else Inr [])"

definition sample_run :: "string \<Rightarrow> string list \<Rightarrow> int \<Rightarrow> Monitored" where
  "sample_run cmd args timeout =
     \<lparr>child_run = exit_42, spawned = True, ctx_after = NotDone, signal_at = None\<rparr>"

text \<open>The name of the flag an argument sets, and the position of a handler's type in the
  order Command, Webhook, Syslog, Slack.\<close>

fun flag_name :: "flag \<Rightarrow> string" where
  "flag_name (Flag_c x) = ''c''"
| "flag_name (Flag_w x) = ''w''"
| "flag_name (Flag_s x) = ''s''"
| "flag_name (Flag_slack_webhook x) = ''slack-webhook''"
| "flag_name (Flag_slack_msg x) = ''slack-msg''"
| "flag_name (Flag_timeout n) = ''timeout''"
| "flag_name (Flag_d b) = ''d''"
| "flag_name (Flag_h b) = ''h''"

fun rank :: "FailureHandler \<Rightarrow> nat" where
  "rank (Command h) = 0"
| "rank (Webhook h) = 1"
| "rank (Syslog h) = 2"
| "rank (Slack h) = 3"
| "rank (Custom handle description) = 4"

text \<open>The handlers the variables ask for, listed in that order.\<close>

definition configured :: "Options \<Rightarrow> FailureHandler list" where
  "configured v =
     (if opt_command v \<noteq> [] then [Command (NewCommandHandler (opt_command v))] else [])
     @ (if opt_webhook v \<noteq> [] then [Webhook (NewWebhookHandler (opt_webhook v))] else [])
     @ (if opt_syslogMsg v \<noteq> [] then [Syslog (NewSyslogHandler (opt_syslogMsg v))] else [])
     @ (if opt_slackWebhook v \<noteq> []
        then [Slack (NewSlackHandler (opt_slackWebhook v) (opt_slackMsg v) [])] else [])"

text \<open>The handler of the Slack test: a channel and a user name are set.\<close>

definition sample_slack :: SlackHandler where
  "sample_slack =
     NewSlackHandler ''http://hooks'' ''Error: __STATUS_CODE__ - __OUTPUT__''
       [WithChannel ''#testing'', WithUsername ''TestBot'']"

text \<open>The registry whose functions return their values escaped with \<^verbatim>\<open>url.QueryEscape\<close>.\<close>

definition escaped :: "PlaceholderRegistry \<Rightarrow> PlaceholderRegistry" where
  "escaped pr =
     pr\<lparr>placeholders :=
          map_option (\<lambda>fn now exitCode output. url_QueryEscape (fn now exitCode output))
            \<circ> placeholders pr\<rparr>"

text \<open>
  The pieces into which \<^verbatim>\<open>strings.Replace\<close> cuts a text at a non-empty token: scanning from
  the left, no occurrence of the token ends inside a piece or in a piece followed by the
  token short of its last byte, so that every separator is the leftmost occurrence of the
  token after the one before it, and the last piece holds none.
\<close>

definition leftmost :: "string \<Rightarrow> string list \<Rightarrow> bool" where
  "leftmost tok ps =
     (ps \<noteq> [] \<and> (\<forall>p \<in> set (butlast ps). \<not> sublist tok (p @ butlast tok))
      \<and> \<not> sublist tok (last ps))"

section \<open>Auxiliary lemmas\<close>

subsection \<open>Wait statuses\<close>

lemma wait_mask7: "(0x7F :: 32 word) = mask 7"
  by (simp add: mask_eq_exp_minus_1)

lemma wait_mask8: "(0xFF :: 32 word) = mask 8"
  by (simp add: mask_eq_exp_minus_1)

lemma Exited_push_bit: "Exited (push_bit 8 x)"
  unfolding Exited_def wait_mask7
  by (simp add: take_bit_eq_mask [symmetric] take_bit_push_bit)

lemma status_byte_push_bit: "take_bit 8 (drop_bit 8 (push_bit 8 (w :: 32 word))) = take_bit 8 w"
  by (rule bit_word_eqI) (auto simp: bit_simps)

lemma ExitStatus_exit:
  assumes "n < 256"
  shows "ExitStatus (push_bit 8 (word_of_nat n)) = int n"
proof -
  have "drop_bit 8 (push_bit 8 (word_of_nat n :: 32 word)) AND 0xFF = word_of_nat n"
    unfolding wait_mask8 using assms
    by (simp only: take_bit_eq_mask [symmetric] status_byte_push_bit)
       (simp add: take_bit_of_nat take_bit_nat_eq_self)
  with assms show ?thesis
    by (simp add: ExitStatus_def Exited_push_bit unsigned_of_nat take_bit_nat_eq_self)
qed

subsection \<open>The loops leave the registry alone; the calls of \<^verbatim>\<open>HandleFailure\<close>\<close>

lemma Replace_loop_frame: "snd (Replace_loop clk e out vs st) = snd st"
  by (induction clk e out vs st rule: Replace_loop.induct) (auto split: option.splits)

lemma ReplaceURLEncoded_loop_frame: "snd (ReplaceURLEncoded_loop clk e out vs st) = snd st"
  by (induction clk e out vs st rule: ReplaceURLEncoded_loop.induct) (auto split: option.splits)

lemma calls_append: "calls (tr @ tr') = calls tr @ calls tr'"
  by (induction tr rule: calls.induct) auto

lemma stderr_lines_append: "stderr_lines (tr @ tr') = stderr_lines tr @ stderr_lines tr'"
  by (induction tr rule: stderr_lines.induct) auto

lemma HandleFailure_loop_calls:
  "map (\<lambda>(h, e', out', r). (h, e', out')) (calls (fst (HandleFailure_loop env dbg e out hs (tr, w))))
   = map (\<lambda>(h, e', out', r). (h, e', out')) (calls tr) @ map (\<lambda>h. (h, e, out)) hs"
  by (induction hs arbitrary: tr w)
     (auto split: prod.splits option.splits simp: Let_def calls_append)

lemma HandleFailure_loop_stderr:
  "stderr_lines tr = concat (map error_report (calls tr)) \<Longrightarrow>
   stderr_lines (fst (HandleFailure_loop env dbg e out hs (tr, w)))
   = concat (map error_report (calls (fst (HandleFailure_loop env dbg e out hs (tr, w)))))"
  by (induction hs arbitrary: tr w)
     (auto split: prod.splits option.splits
           simp: Let_def calls_append stderr_lines_append error_report_def)

lemma Sprintf_d_30: "Sprintf_d 30 = ''30''"
  by code_simp

subsection \<open>Trimming\<close>

lemma strip_runes_decomp:
  "\<exists>es. set es \<subseteq> set encs \<and> s = concat es @ strip_runes encs s"
proof (induction encs s rule: strip_runes.induct)
  case (1 encs s)
  show ?case
  proof (cases "find (\<lambda>enc. enc \<noteq> [] \<and> prefix enc s) encs")
    case None
    then have "strip_runes encs s = s" by (simp add: strip_runes.simps)
    then have "set [] \<subseteq> set encs \<and> s = concat [] @ strip_runes encs s" by simp
    then show ?thesis by blast
  next
    case (Some enc)
    then have enc: "enc \<in> set encs" "prefix enc s"
      by (auto simp: find_Some_iff)
    from Some have eq: "strip_runes encs s = strip_runes encs (drop (length enc) s)"
      by (simp add: strip_runes.simps)
    from "1.IH" [OF Some] obtain es where
      es: "set es \<subseteq> set encs"
          "drop (length enc) s = concat es @ strip_runes encs (drop (length enc) s)"
      by blast
    from enc(2) have "s = enc @ drop (length enc) s"
      by (auto simp: prefix_def)
    with es(2) eq have "s = concat (enc # es) @ strip_runes encs s" by simp
    moreover from es(1) enc(1) have "set (enc # es) \<subseteq> set encs" by simp
    ultimately show ?thesis by blast
  qed
qed

lemma strip_runes_done:
  "find (\<lambda>enc. enc \<noteq> [] \<and> prefix enc (strip_runes encs s)) encs = None"
proof (induction encs s rule: strip_runes.induct)
  case (1 encs s)
  show ?case
  proof (cases "find (\<lambda>enc. enc \<noteq> [] \<and> prefix enc s) encs")
    case None
    then show ?thesis by (simp add: strip_runes.simps)
  next
    case (Some enc)
    with "1.IH" [OF Some] show ?thesis by (simp add: strip_runes.simps)
  qed
qed

lemma TrimLeft_decomp: "\<exists>pre. spaces pre \<and> s = pre @ TrimLeft s"
  using strip_runes_decomp [of space_encodings s] unfolding TrimLeft_def spaces_def by blast

lemma TrimRight_decomp: "\<exists>suf. spaces suf \<and> s = TrimRight s @ suf"
proof -
  from strip_runes_decomp [of "map rev space_encodings" "rev s"] obtain es where
    es: "set es \<subseteq> set (map rev space_encodings)"
        "rev s = concat es @ strip_runes (map rev space_encodings) (rev s)"
    by blast
  from es(2) have "s = rev (concat es @ strip_runes (map rev space_encodings) (rev s))"
    by (metis rev_rev_ident)
  then have "s = TrimRight s @ concat (map rev (rev es))"
    by (simp add: TrimRight_def rev_concat)
  moreover from es(1) have "set (map rev (rev es)) \<subseteq> set space_encodings"
    by auto
  ultimately show ?thesis unfolding spaces_def by blast
qed

lemma TrimLeft_no_leading: "\<not> leading_space (TrimLeft s)"
  using strip_runes_done [of space_encodings s] by (simp add: leading_space_def TrimLeft_def)

lemma TrimRight_no_trailing: "\<not> trailing_space (TrimRight s)"
proof -
  have "find (\<lambda>enc. enc \<noteq> [] \<and> prefix enc (rev (TrimRight s))) (map rev space_encodings) = None"
    using strip_runes_done [of "map rev space_encodings" "rev s"] by (simp add: TrimRight_def)
  then have "\<forall>enc \<in> set space_encodings. \<not> (enc \<noteq> [] \<and> suffix enc (TrimRight s))"
    by (auto simp: find_None_iff suffix_to_prefix)
  then show ?thesis by (simp add: trailing_space_def find_None_iff)
qed

lemma TrimRight_keeps_no_leading:
  assumes "\<not> leading_space t"
  shows "\<not> leading_space (TrimRight t)"
proof -
  from TrimRight_decomp [of t] obtain suf where "t = TrimRight t @ suf" by blast
  then have "prefix (TrimRight t) t" by (metis prefixI)
  then have "\<And>enc. prefix enc (TrimRight t) \<Longrightarrow> prefix enc t" by auto
  with assms show ?thesis by (auto simp: leading_space_def find_None_iff)
qed

lemma strip_runes_Nil: "strip_runes encs [] = []"
  by (subst strip_runes.simps) (auto simp: find_Some_iff split: option.split)

lemma TrimSpace_Nil: "strings_TrimSpace [] = []"
  by (simp add: strings_TrimSpace_def TrimLeft_def TrimRight_def strip_runes_Nil)

lemma TrimSpace_a_nl_b_nl:
  "strings_TrimSpace [CHR ''a'', CHR 0x0A, CHR ''b'', CHR 0x0A] = [CHR ''a'', CHR 0x0A, CHR ''b'']"
  by (simp add: strings_TrimSpace_def TrimLeft_def TrimRight_def strip_runes.simps
        space_encodings_def)

lemma TrimSpace_a_nl: "strings_TrimSpace [CHR ''a'', CHR 0x0A] = [CHR ''a'']"
  by (simp add: strings_TrimSpace_def TrimLeft_def TrimRight_def strip_runes.simps
        space_encodings_def)

lemma TrimSpace_b_nl: "strings_TrimSpace [CHR ''b'', CHR 0x0A] = [CHR ''b'']"
  by (simp add: strings_TrimSpace_def TrimLeft_def TrimRight_def strip_runes.simps
        space_encodings_def)

lemma TrimSpace_a_b: "strings_TrimSpace [CHR ''a'', CHR ''b''] = [CHR ''a'', CHR ''b'']"
  by (simp add: strings_TrimSpace_def TrimLeft_def TrimRight_def strip_runes.simps
        space_encodings_def)

subsection \<open>A text without tokens\<close>

lemma Replace_loop_absent:
  "\<forall>tok \<in> set vs. \<not> strings_Contains s tok \<Longrightarrow> Replace_loop clk e out vs (s, pr) = (s, pr)"
  by (induction vs)
     (auto simp: strings_Replace_def strings_Contains_def Let_def split: option.splits)

lemma true_has_no_token: "\<forall>tok \<in> set (visit sample_pass). \<not> strings_Contains ''true'' tok"
  by (simp add: sample_pass_def strings_Contains_def sublist_code(3))

subsection \<open>Flags and registration\<close>

lemma set_flag_commute:
  "flag_name a \<noteq> flag_name b \<Longrightarrow> set_flag (set_flag v a) b = set_flag (set_flag v b) a"
  by (cases a; cases b; simp)

lemma Parse_permute:
  assumes "mset fs' = mset fs" and "distinct (map flag_name fs)"
  shows "Parse fs' = Parse fs"
proof -
  have "fold (\<lambda>f v. set_flag v f) fs = fold (\<lambda>f v. set_flag v f) fs'"
  proof (rule fold_multiset_equiv)
    fix x y assume "x \<in> set fs" "y \<in> set fs"
    with assms(2) have "x = y \<or> flag_name x \<noteq> flag_name y"
      by (auto simp: distinct_map inj_on_def)
    then show "(\<lambda>v. set_flag v x) \<circ> (\<lambda>v. set_flag v y) = (\<lambda>v. set_flag v y) \<circ> (\<lambda>v. set_flag v x)"
      by (auto simp: fun_eq_iff set_flag_commute)
  next
    show "mset fs = mset fs'" using assms(1) by simp
  qed
  then show ?thesis by (simp add: Parse_def foldl_conv_fold)
qed

lemma handlers_add: "handlers (fst (add h st)) = handlers (fst st) @ [h]"
  by (simp add: add_def AddHandler_def split: prod.split)

lemma main_register_handlers: "handlers (fst (main_register v (NewFailHook d))) = configured v"
  unfolding main_register_def Let_def configured_def
  by (simp add: handlers_add NewFailHook_def)

lemma configured_sorted: "sorted_wrt (<) (map rank (configured v))"
  by (simp add: configured_def)

lemma calls_handlers: "map fst (calls (fst (HandleFailure env fh e out w))) = handlers fh"
proof -
  have "map fst (calls (fst (HandleFailure env fh e out w)))
        = map fst (map (\<lambda>(h, e', out', r). (h, e', out'))
                     (calls (fst (HandleFailure env fh e out w))))"
    by (simp add: case_prod_unfold comp_def)
  also have "\<dots> = map fst (map (\<lambda>h. (h, e, out)) (handlers fh))"
    unfolding HandleFailure_def
    using HandleFailure_loop_calls [of env "debug fh" e out "handlers fh" "[]" w] by simp
  finally show ?thesis by (simp add: comp_def)
qed

subsection \<open>The built-in registry on sample texts\<close>

lemma Sprintf_d_127: "Sprintf_d 127 = ''127''"
  by code_simp

lemma Replace_loop_Cons:
  "placeholders pr tok = Some fn \<Longrightarrow>
   Replace_loop clk e out (tok # rest) (s, pr)
   = Replace_loop clk e out rest (strings_Replace s tok (fn (clk tok) e out), pr)"
  by (simp add: Let_def)

lemma strings_Replace_absent: "\<not> strings_Contains s old \<Longrightarrow> strings_Replace s old new = s"
  by (auto simp: strings_Replace_def strings_Contains_def)

lemma builtin_STATUS_CODE:
  "placeholders NewPlaceholderRegistry ''__STATUS_CODE__'' = Some (\<lambda>_ exitCode _. Sprintf_d exitCode)"
  by (simp add: NewPlaceholderRegistry_def Register_def)

lemma builtin_OUTPUT:
  "placeholders NewPlaceholderRegistry ''__OUTPUT__'' = Some (\<lambda>_ _ output. output)"
  by (simp add: NewPlaceholderRegistry_def Register_def)

lemma builtin_TIMESTAMP:
  "placeholders NewPlaceholderRegistry ''__TIMESTAMP__'' = Some (\<lambda>now _ _. rfc3339 now)"
  by (simp add: NewPlaceholderRegistry_def Register_def)

lemma builtin_DATE:
  "placeholders NewPlaceholderRegistry ''__DATE__'' = Some (\<lambda>now _ _. date now)"
  by (simp add: NewPlaceholderRegistry_def Register_def)

lemma builtin_TIME:
  "placeholders NewPlaceholderRegistry ''__TIME__'' = Some (\<lambda>now _ _. time_of_day now)"
  by (simp add: NewPlaceholderRegistry_def Register_def)

lemma builtin_dom:
  "dom (placeholders NewPlaceholderRegistry)
   = {''__STATUS_CODE__'', ''__OUTPUT__'', ''__TIMESTAMP__'', ''__DATE__'', ''__TIME__''}"
  by (auto simp: NewPlaceholderRegistry_def Register_def)

lemma sample_step1: "\<not> strings_Contains ''Error: __STATUS_CODE__ - __OUTPUT__'' ''__DATE__''"
  by (simp add: strings_Contains_def sublist_code(3))

lemma sample_step2: "strings_Replace ''Error: __STATUS_CODE__ - __OUTPUT__'' ''__OUTPUT__'' ''command not found''
   = ''Error: __STATUS_CODE__ - command not found''"
  by (simp add: strings_Replace_def strings_Contains_def sublist_code(3))

lemma sample_step3: "\<not> strings_Contains ''Error: __STATUS_CODE__ - command not found'' ''__TIME__''"
  by (simp add: strings_Contains_def sublist_code(3))

lemma sample_step4: "strings_Replace ''Error: __STATUS_CODE__ - command not found'' ''__STATUS_CODE__'' ''127''
   = ''Error: 127 - command not found''"
  by (simp add: strings_Replace_def strings_Contains_def sublist_code(3))

lemma sample_step5: "\<not> strings_Contains ''Error: 127 - command not found'' ''__TIMESTAMP__''"
  by (simp add: strings_Contains_def sublist_code(3))

lemma sample_message_replaced:
  "fst (Replace sample_pass ''Error: __STATUS_CODE__ - __OUTPUT__'' 127 ''command not found''
          NewPlaceholderRegistry)
   = ''Error: 127 - command not found''"
  unfolding Replace_def sample_pass_def
  by (simp only: Pass.simps Replace_loop_Cons [OF builtin_DATE] Replace_loop_Cons [OF builtin_OUTPUT]
        Replace_loop_Cons [OF builtin_TIME] Replace_loop_Cons [OF builtin_STATUS_CODE]
        Replace_loop_Cons [OF builtin_TIMESTAMP] strings_Replace_absent [OF sample_step1]
        sample_step2 strings_Replace_absent [OF sample_step3] Sprintf_d_127 sample_step4 strings_Replace_absent [OF sample_step5]
        Replace_loop.simps(1) fst_conv)

subsection \<open>What \<^verbatim>\<open>strings.Replace\<close> keeps and when it changes nothing\<close>

lemma replace_all_length:
  "old \<noteq> [] \<Longrightarrow>
   (length new \<le> length old \<longrightarrow> length (replace_all old new s) \<le> length s)
   \<and> (length old \<le> length new \<longrightarrow> length s \<le> length (replace_all old new s))"
proof (induction old new s rule: replace_all.induct)
  case (1 old new)
  then show ?case by simp
next
  case (2 old new c cs)
  show ?case
  proof (cases "prefix old (c # cs)")
    case True
    then have "length old \<le> length (c # cs)" by (rule prefix_length_le)
    with True 2 show ?thesis by auto
  next
    case False
    with 2 show ?thesis by auto
  qed
qed

lemma replace_all_fixed:
  "old \<noteq> [] \<Longrightarrow> old \<noteq> new \<Longrightarrow> replace_all old new s = s \<Longrightarrow> \<not> sublist old s"
proof (induction old new s rule: replace_all.induct)
  case (1 old new)
  then show ?case by simp
next
  case (2 old new c cs)
  show ?case
  proof (cases "prefix old (c # cs)")
    case True
    then obtain rest where rest: "c # cs = old @ rest" by (auto simp: prefix_def)
    then have d: "drop (length old) (c # cs) = rest" by (metis append_eq_conv_conj)
    from True 2(3) have "replace_all old new (c # cs)
        = new @ replace_all old new (drop (length old) (c # cs))"
      by simp
    with d have "replace_all old new (c # cs) = new @ replace_all old new rest"
      by (simp only:)
    with 2(5) rest have eq: "new @ replace_all old new rest = old @ rest"
      by (simp only:)
    have "length new = length old"
    proof (cases "length new \<le> length old")
      case True
      with replace_all_length [OF 2(3), of new rest] have "length (replace_all old new rest) \<le> length rest"
        by simp
      moreover from eq have "length new + length (replace_all old new rest) = length old + length rest"
        by (metis length_append)
      ultimately show ?thesis using True by linarith
    next
      case False
      with replace_all_length [OF 2(3), of new rest] have "length rest \<le> length (replace_all old new rest)"
        by simp
      moreover from eq have "length new + length (replace_all old new rest) = length old + length rest"
        by (metis length_append)
      ultimately show ?thesis using False by linarith
    qed
    with eq have "new = old" by simp
    with 2(4) show ?thesis by simp
  next
    case False
    with 2(5) have "replace_all old new cs = cs" by simp
    with 2(2) [OF _ 2(3) 2(4)] False have "\<not> sublist old cs" by simp
    with False 2(3) show ?thesis by (cases old) (simp_all add: sublist_code(3))
  qed
qed

lemma insert_after_runes_length: "length s \<le> length (insert_after_runes new s)"
proof (induction new s rule: insert_after_runes.induct)
  case (1 new s)
  show ?case
  proof (cases "s = []")
    case True
    then show ?thesis by (simp add: insert_after_runes.simps)
  next
    case False
    from 1 [OF False] have "length (drop (rune_width s) s) \<le> length (insert_after_runes new (drop (rune_width s) s))" .
    then have "length s \<le> length (take (rune_width s) s @ new @ insert_after_runes new (drop (rune_width s) s))"
      by simp
    with False show ?thesis by (subst insert_after_runes.simps) simp
  qed
qed

lemma strings_Replace_fixed:
  "strings_Replace s old new = s \<longleftrightarrow> \<not> strings_Contains s old \<or> new = old"
proof (cases "old = new")
  case True
  then show ?thesis by (simp add: strings_Replace_def)
next
  case False
  show ?thesis
  proof (cases "old = []")
    case True
    with False have "new \<noteq> []" by simp
    with insert_after_runes_length [of s new]
    have "length s < length (new @ insert_after_runes new s)" by (cases new) auto
    then have "new @ insert_after_runes new s \<noteq> s" by (metis less_irrefl)
    with True False show ?thesis by (simp add: strings_Replace_def strings_Contains_def)
  next
    case nonempty: False
    with False replace_all_fixed [of old new s] show ?thesis
      by (auto simp: strings_Replace_def strings_Contains_def)
  qed
qed


lemma strings_Join_Cons: "ys \<noteq> [] \<Longrightarrow> strings_Join (a # ys) sep = a @ sep @ strings_Join ys sep"
  by (cases ys) simp_all

lemma not_sublist_butlast: "old \<noteq> [] \<Longrightarrow> \<not> sublist old (butlast old)"
proof
  assume "old \<noteq> []" and "sublist old (butlast old)"
  then have "length old \<le> length (butlast old)" by (blast dest: sublist_length_le)
  with \<open>old \<noteq> []\<close> show False by (cases old rule: rev_cases) auto
qed

lemma leftmost_front:
  assumes "old \<noteq> []" and "leftmost old ps"
  shows "leftmost old ([] # ps)"
  using assms not_sublist_butlast [of old] by (auto simp: leftmost_def)

lemma leftmost_push:
  assumes "leftmost old (p # ps')" and "\<not> prefix old (c # strings_Join (p # ps') old)"
  shows "leftmost old ((c # p) # ps')"
proof (cases ps')
  case Nil
  with assms show ?thesis by (auto simp: leftmost_def sublist_Cons_right)
next
  case (Cons q qs)
  have "prefix (butlast old) old" by (rule prefixeq_butlast)
  then obtain z where z: "old = butlast old @ z" by (auto simp: prefix_def)
  have "strings_Join (p # ps') old = p @ old @ strings_Join ps' old"
    using Cons by simp
  then have "c # strings_Join (p # ps') old = (c # p @ butlast old) @ z @ strings_Join ps' old"
    using z by (metis append_Cons append_assoc)
  then have "prefix (c # p @ butlast old) (c # strings_Join (p # ps') old)"
    by (metis prefixI)
  with assms(2) have "\<not> prefix old (c # p @ butlast old)"
    by (meson prefix_order.trans)
  moreover from assms(1) Cons have "\<not> sublist old (p @ butlast old)"
    by (simp add: leftmost_def)
  ultimately have "\<not> sublist old ((c # p) @ butlast old)"
    by (simp add: sublist_Cons_right)
  with assms(1) Cons show ?thesis by (simp add: leftmost_def)
qed

lemma replace_all_pieces:
  "old \<noteq> [] \<Longrightarrow>
   \<exists>ps. leftmost old ps \<and> s = strings_Join ps old
        \<and> (\<forall>new. replace_all old new s = strings_Join ps new)"
proof (induction s rule: length_induct)
  case (1 s)
  show ?case
  proof (cases s)
    case Nil
    with 1(2) have "leftmost old [[]] \<and> s = strings_Join [[]] old
        \<and> (\<forall>new. replace_all old new s = strings_Join [[]] new)"
      by (simp add: leftmost_def)
    then show ?thesis by blast
  next
    case (Cons c cs)
    show ?thesis
    proof (cases "prefix old (c # cs)")
      case True
      then obtain rest where rest: "c # cs = old @ rest" by (auto simp: prefix_def)
      then have d: "drop (length old) (c # cs) = rest" by (metis append_eq_conv_conj)
      from rest 1(2) Cons have "length rest < length s" by (cases old) auto
      with 1 obtain ps where ps: "leftmost old ps" "rest = strings_Join ps old"
        "\<forall>new. replace_all old new rest = strings_Join ps new" by blast
      from ps(1) have ne: "ps \<noteq> []" by (simp add: leftmost_def)
      have r: "\<And>new. replace_all old new (c # cs) = new @ replace_all old new rest"
        using True 1(2) d by simp
      from ps ne rest Cons have "s = strings_Join ([] # ps) old"
        by (simp add: strings_Join_Cons)
      moreover from ps ne r Cons have "\<forall>new. replace_all old new s = strings_Join ([] # ps) new"
        by (simp add: strings_Join_Cons)
      moreover from 1(2) ps(1) have "leftmost old ([] # ps)" by (rule leftmost_front)
      ultimately show ?thesis by blast
    next
      case False
      from Cons have "length cs < length s" by simp
      with 1 obtain ps where ps: "leftmost old ps" "cs = strings_Join ps old"
        "\<forall>new. replace_all old new cs = strings_Join ps new" by blast
      from ps(1) have "ps \<noteq> []" by (simp add: leftmost_def)
      then obtain p ps' where pp: "ps = p # ps'" by (cases ps) auto
      have j: "\<And>sep. strings_Join ((c # p) # ps') sep = c # strings_Join (p # ps') sep"
        by (cases ps') simp_all
      from ps pp Cons j have "s = strings_Join ((c # p) # ps') old" by simp
      moreover from ps pp Cons j False
      have "\<forall>new. replace_all old new s = strings_Join ((c # p) # ps') new"
        by simp
      moreover from ps(1) pp False ps(2) have "leftmost old ((c # p) # ps')"
        by (intro leftmost_push) simp_all
      ultimately show ?thesis by blast
    qed
  qed
qed

lemma insert_after_runes_pieces:
  "\<exists>rs. s = concat rs \<and> (\<forall>new. insert_after_runes new s = concat (map (\<lambda>r. r @ new) rs))"
proof (induction s rule: length_induct)
  case (1 s)
  show ?case
  proof (cases "s = []")
    case True
    then have "s = concat [] \<and> (\<forall>new. insert_after_runes new s = concat (map (\<lambda>r. r @ new) []))"
      by (simp add: insert_after_runes.simps)
    then show ?thesis by blast
  next
    case False
    let ?w = "rune_width s"
    from False have "0 < ?w"
      by (cases s) (simp_all add: rune_width_def split: list.split)
    with False have "length (drop ?w s) < length s" by simp
    with 1 obtain rs where rs: "drop ?w s = concat rs"
      "\<forall>new. insert_after_runes new (drop ?w s) = concat (map (\<lambda>r. r @ new) rs)" by blast
    from rs(1) have "s = concat (take ?w s # rs)" by (metis append_take_drop_id concat.simps(2))
    moreover have "\<forall>new. insert_after_runes new s = concat (map (\<lambda>r. r @ new) (take ?w s # rs))"
      using False rs(2) by (subst insert_after_runes.simps) simp
    ultimately show ?thesis by blast
  qed
qed

lemma strings_Join_snoc_empty: "strings_Join (rs @ [[]]) sep = concat (map (\<lambda>r. r @ sep) rs)"
  by (induction rs) (simp_all add: strings_Join_Cons)

lemma strings_Join_empty_sep: "strings_Join ps [] = concat ps"
proof (induction ps)
  case Nil
  then show ?case by simp
next
  case (Cons p ps)
  then show ?case by (cases ps) simp_all
qed

lemma strings_Replace_pieces:
  "\<exists>ps. (old \<noteq> [] \<longrightarrow> leftmost old ps) \<and> s = strings_Join ps old
        \<and> (\<forall>new. strings_Replace s old new = strings_Join ps new)"
proof (cases "old = []")
  case True
  from insert_after_runes_pieces [of s] obtain rs where rs: "s = concat rs"
    "\<forall>new. insert_after_runes new s = concat (map (\<lambda>r. r @ new) rs)" by blast
  let ?ps = "[] # rs @ [[]]"
  have "s = strings_Join ?ps old" using True rs(1) by (simp add: strings_Join_empty_sep)
  moreover from True have "old \<noteq> [] \<longrightarrow> leftmost old ?ps" by simp
  moreover have "\<forall>new. strings_Replace s old new = strings_Join ?ps new"
  proof
    fix new
    show "strings_Replace s old new = strings_Join ?ps new"
    proof (cases "new = []")
      case True
      with \<open>old = []\<close> rs(1) show ?thesis by (simp add: strings_Replace_def strings_Join_empty_sep)
    next
      case False
      with \<open>old = []\<close> rs(2) show ?thesis
        by (simp add: strings_Replace_def strings_Join_Cons strings_Join_snoc_empty)
    qed
  qed
  ultimately show ?thesis by blast
next
  case False
  show ?thesis
  proof (cases "strings_Contains s old")
    case True
    from replace_all_pieces [OF False, of s] obtain ps where ps: "s = strings_Join ps old"
      "\<forall>new. replace_all old new s = strings_Join ps new" and l: "leftmost old ps" by blast
    have "\<forall>new. strings_Replace s old new = strings_Join ps new"
      using ps True False by (auto simp: strings_Replace_def)
    with ps(1) l show ?thesis by blast
  next
    case notin: False
    with False
    have "(old \<noteq> [] \<longrightarrow> leftmost old [s]) \<and> s = strings_Join [s] old
          \<and> (\<forall>new. strings_Replace s old new = strings_Join [s] new)"
      by (simp add: strings_Replace_def strings_Contains_def leftmost_def)
    then show ?thesis by blast
  qed
qed

subsection \<open>The loop of \<^verbatim>\<open>ReplaceURLEncoded\<close>\<close>

lemma Replace_loop_unregistered:
  "\<forall>tok \<in> set vs. tok \<in> dom (placeholders pr) \<longrightarrow> \<not> strings_Contains s tok \<Longrightarrow>
   Replace_loop clk e out vs (s, pr) = (s, pr)"
  by (induction vs)
     (auto simp: strings_Replace_def strings_Contains_def Let_def split: option.splits)

lemma ReplaceURLEncoded_loop_absent:
  "\<forall>tok \<in> set vs. \<not> strings_Contains s tok \<Longrightarrow>
   ReplaceURLEncoded_loop clk e out vs (s, pr) = (s, pr)"
  by (induction vs)
     (auto simp: strings_Replace_def strings_Contains_def Let_def split: option.splits)

lemma ReplaceURLEncoded_loop_append:
  "ReplaceURLEncoded_loop clk e out (xs @ ys) st
   = ReplaceURLEncoded_loop clk e out ys (ReplaceURLEncoded_loop clk e out xs st)"
  by (induction clk e out xs st rule: ReplaceURLEncoded_loop.induct)
     (auto simp: Let_def split: option.splits)

lemma ReplaceURLEncoded_loop_escaped:
  "fst (ReplaceURLEncoded_loop clk e out vs (s, pr)) = fst (Replace_loop clk e out vs (s, escaped pr))"
  by (induction vs arbitrary: s) (auto simp: escaped_def Let_def split: option.splits)

lemma QueryEscape_sample: "url_QueryEscape ''Error & Warning'' = ''Error+%26+Warning''"
  by (simp add: url_QueryEscape_def escape_byte_def shouldEscape_def alnum_def upperhex_def)

lemma url_template_others:
  "\<forall>tok \<in> {''__STATUS_CODE__'', ''__TIMESTAMP__'', ''__DATE__'', ''__TIME__''}.
     \<not> strings_Contains ''https://example.com?output=__OUTPUT__'' tok"
  by (simp add: strings_Contains_def sublist_code(3))

lemma url_result_all:
  "\<forall>tok \<in> {''__STATUS_CODE__'', ''__OUTPUT__'', ''__TIMESTAMP__'', ''__DATE__'', ''__TIME__''}.
     \<not> strings_Contains ''https://example.com?output=Error+%26+Warning'' tok"
  by (simp add: strings_Contains_def sublist_code(3))

lemma url_step:
  "strings_Replace ''https://example.com?output=__OUTPUT__'' ''__OUTPUT__'' ''Error+%26+Warning''
   = ''https://example.com?output=Error+%26+Warning''"
  by (simp add: strings_Replace_def strings_Contains_def sublist_code(3))

lemma ReplaceURLEncoded_loop_single:
  assumes "tok \<in> set vs" and "placeholders pr tok = Some fn"
    and "\<forall>t \<in> set vs. t \<noteq> tok \<longrightarrow> \<not> strings_Contains T t"
    and "\<forall>t \<in> set vs. \<not> strings_Contains R t"
    and "strings_Replace T tok (url_QueryEscape (fn (clk tok) e out)) = R"
  shows "fst (ReplaceURLEncoded_loop clk e out vs (T, pr)) = R"
proof -
  from assms(1) obtain pre post where vs: "vs = pre @ tok # post" "tok \<notin> set pre"
    by (auto dest: split_list_first)
  from vs assms(3) have "\<forall>t \<in> set pre. \<not> strings_Contains T t" by auto
  then have 1: "ReplaceURLEncoded_loop clk e out pre (T, pr) = (T, pr)"
    by (rule ReplaceURLEncoded_loop_absent)
  from vs assms(4) have "\<forall>t \<in> set post. \<not> strings_Contains R t" by auto
  then have 2: "ReplaceURLEncoded_loop clk e out post (R, pr) = (R, pr)"
    by (rule ReplaceURLEncoded_loop_absent)
  have "ReplaceURLEncoded_loop clk e out (tok # post) (T, pr)
        = ReplaceURLEncoded_loop clk e out post (R, pr)"
    using assms(2) assms(5) by (simp add: Let_def)
  with 1 2 vs(1) show ?thesis
    by (simp only: ReplaceURLEncoded_loop_append fst_conv)
qed

lemma url_example:
  assumes "range_order NewPlaceholderRegistry vs"
  shows "fst (ReplaceURLEncoded_loop clk e ''Error & Warning'' vs
                (''https://example.com?output=__OUTPUT__'', NewPlaceholderRegistry))
         = ''https://example.com?output=Error+%26+Warning''"
proof (rule ReplaceURLEncoded_loop_single [where tok = "''__OUTPUT__''"])
  from assms have s: "set vs = {''__STATUS_CODE__'', ''__OUTPUT__'', ''__TIMESTAMP__'', ''__DATE__'', ''__TIME__''}"
    by (simp add: range_order_def builtin_dom)
  show "''__OUTPUT__'' \<in> set vs" by (simp only: s) simp
  show "placeholders NewPlaceholderRegistry ''__OUTPUT__'' = Some (\<lambda>_ _ output. output)"
    by (rule builtin_OUTPUT)
  show "\<forall>t \<in> set vs. t \<noteq> ''__OUTPUT__'' \<longrightarrow> \<not> strings_Contains ''https://example.com?output=__OUTPUT__'' t"
    using url_template_others by (simp only: s) simp
  show "\<forall>t \<in> set vs. \<not> strings_Contains ''https://example.com?output=Error+%26+Warning'' t"
    using url_result_all by (simp only: s)
  show "strings_Replace ''https://example.com?output=__OUTPUT__'' ''__OUTPUT__''
          (url_QueryEscape ''Error & Warning'')
        = ''https://example.com?output=Error+%26+Warning''"
    by (simp only: QueryEscape_sample url_step)
qed

lemma sample_pass_admissible: "range_order NewPlaceholderRegistry (visit sample_pass)"
  by (simp add: range_order_def builtin_dom sample_pass_def insert_commute)

lemma output_absent:
  "\<not> strings_Contains ''__OUTPUT__'' ''__DATE__''"
  "\<not> strings_Contains ''__OUTPUT__'' ''__TIME__''"
  "\<not> strings_Contains ''__OUTPUT__'' ''__STATUS_CODE__''"
  "\<not> strings_Contains ''__OUTPUT__'' ''__TIMESTAMP__''"
  by (simp_all add: strings_Contains_def sublist_code(3))

lemma strings_Replace_same: "strings_Replace s old old = s"
  by (simp add: strings_Replace_def)

lemma true_builtin: "\<forall>tok \<in> dom (placeholders NewPlaceholderRegistry). \<not> strings_Contains ''true'' tok"
  unfolding builtin_dom by (simp add: strings_Contains_def sublist_code(3))

subsection \<open>The end of \<^verbatim>\<open>main\<close>\<close>

lemma main_finish_status: "fst (main_finish env failhook dbg exitCode output w) = 0"
  by (simp add: main_finish_def split: prod.split)

lemma main_finish_success: "calls (fst (snd (main_finish env failhook dbg 0 output w))) = []"
  by (simp add: main_finish_def)

subsection \<open>Coercion to UTF-8\<close>

lemma ascii_width: "(of_char c :: nat) < 0x80 \<Longrightarrow> rune_width (c # cs) = 1"
  by (simp add: rune_width_def)

lemma coerce_utf8_ascii: "\<forall>c \<in> set s. (of_char c :: nat) < 0x80 \<Longrightarrow> coerce_utf8 s = s"
proof (induction s)
  case Nil
  then show ?case by (simp add: coerce_utf8.simps)
next
  case (Cons c cs)
  then have "(of_char c :: nat) < 0x80" and "coerce_utf8 cs = cs" by simp_all
  then show ?case by (subst coerce_utf8.simps) (simp add: ascii_width)
qed

lemma sample_strings_ascii:
  "coerce_utf8 ''Error: 127 - command not found'' = ''Error: 127 - command not found''"
  "coerce_utf8 ''#testing'' = ''#testing''"
  "coerce_utf8 ''TestBot'' = ''TestBot''"
  by (simp_all add: coerce_utf8_ascii)

subsection \<open>The world and the results of \<^verbatim>\<open>HandleFailure\<close>\<close>

lemma HandleFailure_loop_world:
  "snd (HandleFailure_loop env dbg e out hs (tr, w))
   = foldl (\<lambda>w' h. snd (Handle env h e out w')) w hs"
  by (induction hs arbitrary: tr w) (auto split: prod.splits option.splits simp: Let_def)

lemma HandleFailure_loop_results:
  "calls (fst (HandleFailure_loop env dbg e out hs (tr, w)))
   = calls tr
     @ map (\<lambda>i. (hs ! i, e, out,
                  fst (Handle env (hs ! i) e out
                         (foldl (\<lambda>w' h. snd (Handle env h e out w')) w (take i hs)))))
         [0 ..< length hs]"
proof (induction hs arbitrary: tr w)
  case Nil
  then show ?case by simp
next
  case (Cons h hs)
  obtain err w' where hw: "Handle env h e out w = (err, w')" by (cases "Handle env h e out w")
  let ?tr1 = "if dbg then tr @ [Stdout (''Executing handler: '' @ Description h @ nl)] else tr"
  let ?tr2 = "?tr1 @ [Call h e out err]"
  let ?tr3 = "case err of None \<Rightarrow> ?tr2
              | Some x \<Rightarrow> ?tr2 @ [Stderr (''Error with handler '' @ Description h @ '': '' @ x @ nl)]"
  have step: "HandleFailure_loop env dbg e out (h # hs) (tr, w)
              = HandleFailure_loop env dbg e out hs (?tr3, w')"
    using hw by (simp add: Let_def)
  have c3: "calls ?tr3 = calls tr @ [(h, e, out, err)]"
    by (simp add: calls_append split: option.split)
  show ?case
    unfolding step Cons.IH [of ?tr3 w'] c3
    using hw by (simp add: map_upt_Suc del: upt_Suc)
qed

subsection \<open>A command handler on a sample\<close>

lemma Command_true_Handle:
  "CommandHandler_Handle sample_env (NewCommandHandler ''true'') e out w
   = (None, w @ [Exec ''sh'' [''-c'', ''true'']])"
  by (simp add: CommandHandler_Handle_def NewCommandHandler_def Replace_def sample_env_def
        Replace_loop_absent [OF true_has_no_token] Let_def)

lemma command_NewCommandHandler: "command (NewCommandHandler c) = c"
  by (simp add: NewCommandHandler_def)

subsection \<open>Counting marked characters\<close>

lemma replace_all_marked_le:
  "old \<noteq> [] \<Longrightarrow> \<forall>x \<in> set new. \<not> m x \<Longrightarrow>
   length (filter m (replace_all old new s)) \<le> length (filter m s)"
proof (induction old new s rule: replace_all.induct)
  case (1 old new)
  then show ?case by simp
next
  case (2 old new c cs)
  show ?case
  proof (cases "prefix old (c # cs)")
    case True
    then obtain rest where rest: "c # cs = old @ rest" by (auto simp: prefix_def)
    then have d: "drop (length old) (c # cs) = rest" by (metis append_eq_conv_conj)
    from True 2(3) have r: "replace_all old new (c # cs)
        = new @ replace_all old new (drop (length old) (c # cs))"
      by simp
    from 2(1) [OF _ 2(3) 2(4)] True 2(3) d
    have "length (filter m (replace_all old new rest)) \<le> length (filter m rest)" by simp
    moreover from 2(4) have "filter m new = []" by (simp add: filter_empty_conv)
    ultimately have "length (filter m (new @ replace_all old new rest))
        \<le> length (filter m (old @ rest))" by simp
    with r d rest show ?thesis by (simp only:)
  next
    case False
    with 2 show ?thesis by auto
  qed
qed

lemma replace_all_marked_less:
  "old \<noteq> [] \<Longrightarrow> \<forall>x \<in> set new. \<not> m x \<Longrightarrow> \<exists>x \<in> set old. m x \<Longrightarrow> sublist old s \<Longrightarrow>
   length (filter m (replace_all old new s)) < length (filter m s)"
proof (induction old new s rule: replace_all.induct)
  case (1 old new)
  then show ?case by simp
next
  case (2 old new c cs)
  show ?case
  proof (cases "prefix old (c # cs)")
    case True
    then obtain rest where rest: "c # cs = old @ rest" by (auto simp: prefix_def)
    then have d: "drop (length old) (c # cs) = rest" by (metis append_eq_conv_conj)
    from True 2(3) have r: "replace_all old new (c # cs)
        = new @ replace_all old new (drop (length old) (c # cs))"
      by simp
    from replace_all_marked_le [OF 2(3) 2(4), of rest]
    have "length (filter m (replace_all old new rest)) \<le> length (filter m rest)" .
    moreover from 2(4) have "filter m new = []" by (simp add: filter_empty_conv)
    moreover from 2(5) have "filter m old \<noteq> []" by (simp add: filter_empty_conv)
    then have "0 < length (filter m old)" by simp
    ultimately have "length (filter m (new @ replace_all old new rest))
        < length (filter m (old @ rest))" by (simp del: length_greater_0_conv)
    with r d rest show ?thesis by (simp only:)
  next
    case False
    with 2(6) 2(3) have "sublist old cs" by (cases old) (auto simp: sublist_code(3))
    with 2(2) [OF _ 2(3) 2(4) 2(5)] False
    have "length (filter m (replace_all old new cs)) < length (filter m cs)" by simp
    with False show ?thesis by simp
  qed
qed

lemma strings_Replace_marked:
  assumes "\<exists>x \<in> set old. m x" and "\<forall>x \<in> set new. \<not> m x"
  shows "length (filter m (strings_Replace s old new)) \<le> length (filter m s)"
    and "strings_Contains s old \<Longrightarrow>
         length (filter m (strings_Replace s old new)) < length (filter m s)"
proof -
  from assms have ne: "old \<noteq> []" and diff: "old \<noteq> new" by auto
  show "length (filter m (strings_Replace s old new)) \<le> length (filter m s)"
    using ne diff replace_all_marked_le [OF ne assms(2), of s]
    by (simp add: strings_Replace_def)
  show "strings_Contains s old \<Longrightarrow>
         length (filter m (strings_Replace s old new)) < length (filter m s)"
    using ne diff replace_all_marked_less [OF ne assms(2) assms(1), of s]
    by (simp add: strings_Replace_def strings_Contains_def)
qed

lemma Replace_loop_marked_le:
  assumes "\<forall>tok \<in> set vs. \<forall>fn. placeholders pr tok = Some fn \<longrightarrow>
             (\<exists>x \<in> set tok. m x) \<and> (\<forall>x \<in> set (fn (clk tok) e out). \<not> m x)"
  shows "length (filter m (fst (Replace_loop clk e out vs (s, pr)))) \<le> length (filter m s)"
  using assms
proof (induction vs arbitrary: s)
  case Nil
  then show ?case by simp
next
  case (Cons tok vs)
  show ?case
  proof (cases "placeholders pr tok")
    case None
    with Cons show ?thesis by simp
  next
    case (Some fn)
    with Cons.prems have c: "\<exists>x \<in> set tok. m x" "\<forall>x \<in> set (fn (clk tok) e out). \<not> m x"
      by auto
    let ?s' = "strings_Replace s tok (fn (clk tok) e out)"
    from Cons.IH [of ?s'] Cons.prems
    have "length (filter m (fst (Replace_loop clk e out vs (?s', pr)))) \<le> length (filter m ?s')"
      by simp
    with strings_Replace_marked(1) [OF c, of s] Some show ?thesis by (simp add: Let_def)
  qed
qed

lemma Replace_loop_marked_less:
  assumes "\<forall>tok \<in> set vs. \<forall>fn. placeholders pr tok = Some fn \<longrightarrow>
             (\<exists>x \<in> set tok. m x) \<and> (\<forall>x \<in> set (fn (clk tok) e out). \<not> m x)"
    and "\<exists>tok \<in> set vs. tok \<in> dom (placeholders pr) \<and> strings_Contains s tok"
  shows "length (filter m (fst (Replace_loop clk e out vs (s, pr)))) < length (filter m s)"
  using assms
proof (induction vs arbitrary: s)
  case Nil
  then show ?case by simp
next
  case (Cons tok vs)
  from Cons.prems(1) have rest: "\<forall>tok \<in> set vs. \<forall>fn. placeholders pr tok = Some fn \<longrightarrow>
             (\<exists>x \<in> set tok. m x) \<and> (\<forall>x \<in> set (fn (clk tok) e out). \<not> m x)" by simp
  show ?case
  proof (cases "placeholders pr tok")
    case None
    with Cons.prems(2) have "\<exists>tok \<in> set vs. tok \<in> dom (placeholders pr) \<and> strings_Contains s tok"
      by auto
    from Cons.IH [OF rest this] None show ?thesis by simp
  next
    case (Some fn)
    with Cons.prems have c: "\<exists>x \<in> set tok. m x" "\<forall>x \<in> set (fn (clk tok) e out). \<not> m x"
      by auto
    let ?s' = "strings_Replace s tok (fn (clk tok) e out)"
    have step: "fst (Replace_loop clk e out (tok # vs) (s, pr)) = fst (Replace_loop clk e out vs (?s', pr))"
      using Some by (simp add: Let_def)
    show ?thesis
    proof (cases "strings_Contains s tok")
      case True
      from strings_Replace_marked(2) [OF c True]
      have "length (filter m ?s') < length (filter m s)" .
      with Replace_loop_marked_le [OF rest, of ?s'] step show ?thesis by simp
    next
      case False
      then have same: "?s' = s" by (rule strings_Replace_absent)
      from False Cons.prems(2)
      have "\<exists>tok \<in> set vs. tok \<in> dom (placeholders pr) \<and> strings_Contains s tok" by auto
      from Cons.IH [OF rest this] step same show ?thesis by simp
    qed
  qed
qed


lemma digit_no_underscore: "digit d \<noteq> CHR ''_''"
proof -
  have "digit d \<in> set ''0123456789''" unfolding digit_def by (rule nth_mem) simp
  then show ?thesis by auto
qed

lemma decimal_no_underscore: "CHR ''_'' \<notin> set (decimal n)"
proof (induction n rule: decimal.induct)
  case (1 n)
  show ?case
  proof (cases "n < 10")
    case True
    then show ?thesis using digit_no_underscore [of n] by (subst decimal.simps) simp
  next
    case False
    with 1 digit_no_underscore [of n] show ?thesis by (subst decimal.simps) simp
  qed
qed

lemma Sprintf_d_no_underscore: "CHR ''_'' \<notin> set (Sprintf_d i)"
  by (simp add: Sprintf_d_def decimal_no_underscore)

lemma builtin_marked:
  assumes "CHR ''_'' \<notin> set out"
    and "CHR ''_'' \<notin> set (rfc3339 (clk ''__TIMESTAMP__''))"
    and "CHR ''_'' \<notin> set (date (clk ''__DATE__''))"
    and "CHR ''_'' \<notin> set (time_of_day (clk ''__TIME__''))"
  shows "\<forall>tok fn. placeholders NewPlaceholderRegistry tok = Some fn \<longrightarrow>
           (\<exists>x \<in> set tok. x = CHR ''_'') \<and> (\<forall>x \<in> set (fn (clk tok) e out). x \<noteq> CHR ''_'')"
  using assms Sprintf_d_no_underscore [of e]
  by (auto simp: NewPlaceholderRegistry_def Register_def split: if_splits)

lemma Replace_absent:
  assumes "\<forall>tok \<in> dom (placeholders pr). \<not> strings_Contains tmpl tok"
  shows "fst (Replace p tmpl e out pr) = tmpl"
proof -
  from assms
  have "\<forall>tok \<in> set (visit p). tok \<in> dom (placeholders pr) \<longrightarrow> \<not> strings_Contains tmpl tok"
    by blast
  then show ?thesis by (simp add: Replace_def Replace_loop_unregistered)
qed

lemma Replace_present:
  assumes ro: "range_order pr (visit p)"
    and mk: "\<forall>tok fn. placeholders pr tok = Some fn \<longrightarrow>
               (\<exists>x \<in> set tok. m x) \<and> (\<forall>x \<in> set (fn (clock p tok) e out). \<not> m x)"
    and tk: "tok \<in> dom (placeholders pr)" "strings_Contains tmpl tok"
  shows "fst (Replace p tmpl e out pr) \<noteq> tmpl"
proof -
  from ro tk
  have "\<exists>tok \<in> set (visit p). tok \<in> dom (placeholders pr) \<and> strings_Contains tmpl tok"
    by (auto simp: range_order_def)
  moreover from mk
  have "\<forall>tok \<in> set (visit p). \<forall>fn. placeholders pr tok = Some fn \<longrightarrow>
          (\<exists>x \<in> set tok. m x) \<and> (\<forall>x \<in> set (fn (clock p tok) e out). \<not> m x)"
    by blast
  ultimately
  have "length (filter m (fst (Replace p tmpl e out pr))) < length (filter m tmpl)"
    unfolding Replace_def by (rule Replace_loop_marked_less [rotated])
  then show ?thesis by auto
qed

lemma Replace_marked_iff:
  assumes "range_order pr (visit p)"
    and "\<forall>tok fn. placeholders pr tok = Some fn \<longrightarrow>
           (\<exists>x \<in> set tok. m x) \<and> (\<forall>x \<in> set (fn (clock p tok) e out). \<not> m x)"
  shows "fst (Replace p tmpl e out pr) = tmpl
         \<longleftrightarrow> (\<forall>tok \<in> dom (placeholders pr). \<not> strings_Contains tmpl tok)"
  using Replace_absent [of pr tmpl p e out] Replace_present [OF assms, of _ tmpl]
  by blast

lemma exit_code_text: "strings_Contains ''Exit code: __STATUS_CODE__'' ''__STATUS_CODE__''"
  by (simp add: strings_Contains_def sublist_code(3))

lemma sample_clock_no_underscore:
  "CHR ''_'' \<notin> set (rfc3339 (clock sample_pass ''__TIMESTAMP__''))"
  "CHR ''_'' \<notin> set (date (clock sample_pass ''__DATE__''))"
  "CHR ''_'' \<notin> set (time_of_day (clock sample_pass ''__TIME__''))"
  by (simp_all add: sample_pass_def sample_clock_def)

subsection \<open>Stages of \<^verbatim>\<open>ReplaceURLEncoded\<close>\<close>

lemma ReplaceURLEncoded_loop_Cons:
  "placeholders pr tok = Some fn \<Longrightarrow>
   ReplaceURLEncoded_loop clk e out (tok # rest) (s, pr)
   = ReplaceURLEncoded_loop clk e out rest
       (strings_Replace s tok (url_QueryEscape (fn (clk tok) e out)), pr)"
  by (simp add: Let_def)

lemma ReplaceURLEncoded_loop_only:
  assumes "distinct vs" and "tok \<in> set vs" and "placeholders pr tok = Some fn"
    and "\<forall>t \<in> set vs. t \<noteq> tok \<longrightarrow> \<not> strings_Contains T t \<and> \<not> strings_Contains R t"
    and "strings_Replace T tok (url_QueryEscape (fn (clk tok) e out)) = R"
  shows "fst (ReplaceURLEncoded_loop clk e out vs (T, pr)) = R"
proof -
  from assms(2) obtain pre post where vs: "vs = pre @ tok # post"
    by (auto dest: split_list)
  with assms(1) have nt: "tok \<notin> set pre" "tok \<notin> set post" by auto
  from vs nt assms(4) have "\<forall>t \<in> set pre. \<not> strings_Contains T t" by auto
  then have 1: "ReplaceURLEncoded_loop clk e out pre (T, pr) = (T, pr)"
    by (rule ReplaceURLEncoded_loop_absent)
  from vs nt assms(4) have "\<forall>t \<in> set post. \<not> strings_Contains R t" by auto
  then have 2: "ReplaceURLEncoded_loop clk e out post (R, pr) = (R, pr)"
    by (rule ReplaceURLEncoded_loop_absent)
  have "ReplaceURLEncoded_loop clk e out (tok # post) (T, pr)
        = ReplaceURLEncoded_loop clk e out post (R, pr)"
    using assms(3) assms(5) by (simp add: Let_def)
  with 1 2 vs show ?thesis
    by (simp only: ReplaceURLEncoded_loop_append fst_conv)
qed

lemma ReplaceURLEncoded_stage:
  assumes "k < length vs"
  shows "case placeholders pr (vs ! k) of
           None \<Rightarrow>
             fst (ReplaceURLEncoded_loop clk e out (take (Suc k) vs) (s, pr))
             = fst (ReplaceURLEncoded_loop clk e out (take k vs) (s, pr))
         | Some fn \<Rightarrow>
             \<exists>ps. (vs ! k \<noteq> [] \<longrightarrow> leftmost (vs ! k) ps)
                \<and> fst (ReplaceURLEncoded_loop clk e out (take k vs) (s, pr))
                    = strings_Join ps (vs ! k)
                \<and> fst (ReplaceURLEncoded_loop clk e out (take (Suc k) vs) (s, pr))
                    = strings_Join ps (url_QueryEscape (fn (clk (vs ! k)) e out))"
proof -
  let ?st = "ReplaceURLEncoded_loop clk e out (take k vs) (s, pr)"
  have st: "?st = (fst ?st, pr)"
    using ReplaceURLEncoded_loop_frame [of clk e out "take k vs" "(s, pr)"]
    by (simp add: prod_eq_iff)
  from assms have "take (Suc k) vs = take k vs @ [vs ! k]" by (rule take_Suc_conv_app_nth)
  then have step: "ReplaceURLEncoded_loop clk e out (take (Suc k) vs) (s, pr)
      = ReplaceURLEncoded_loop clk e out [vs ! k] (fst ?st, pr)"
    using st by (simp only: ReplaceURLEncoded_loop_append)
  show ?thesis
  proof (cases "placeholders pr (vs ! k)")
    case None
    with step show ?thesis by simp
  next
    case (Some fn)
    from strings_Replace_pieces [of "vs ! k" "fst ?st"] obtain ps where
      ps: "fst ?st = strings_Join ps (vs ! k)"
          "\<forall>new. strings_Replace (fst ?st) (vs ! k) new = strings_Join ps new"
          "vs ! k \<noteq> [] \<longrightarrow> leftmost (vs ! k) ps"
      by blast
    from step Some
    have "fst (ReplaceURLEncoded_loop clk e out (take (Suc k) vs) (s, pr))
          = strings_Replace (fst ?st) (vs ! k) (url_QueryEscape (fn (clk (vs ! k)) e out))"
      by (simp add: Let_def)
    with ps Some show ?thesis by auto
  qed
qed

lemma overlap_steps:
  "\<not> strings_Contains ''__OUTPUT__TATUS_CODE__'' ''__DATE__''"
  "strings_Replace ''__OUTPUT__TATUS_CODE__'' ''__OUTPUT__'' ''__S'' = ''__STATUS_CODE__''"
  "\<not> strings_Contains ''__STATUS_CODE__'' ''__TIME__''"
  "strings_Replace ''__STATUS_CODE__'' ''__STATUS_CODE__'' ''7'' = ''7''"
  "\<not> strings_Contains ''7'' ''__TIMESTAMP__''"
  by (simp_all add: strings_Replace_def strings_Contains_def sublist_code(3))

lemma overlap_template:
  "\<not> strings_Contains ''__OUTPUT__TATUS_CODE__'' ''__STATUS_CODE__''"
  "\<not> strings_Contains ''__OUTPUT__TATUS_CODE__'' ''__TIMESTAMP__''"
  "\<not> strings_Contains ''__OUTPUT__TATUS_CODE__'' ''__TIME__''"
  "\<not> strings_Contains ''7'' ''TATUS_CODE__''"
  by (simp_all add: strings_Contains_def sublist_code(3))

lemma overlap_values:
  "url_QueryEscape ''__S'' = ''__S''" "url_QueryEscape ''7'' = ''7''"
  by (simp_all add: url_QueryEscape_def escape_byte_def shouldEscape_def alnum_def)

lemma Sprintf_d_7: "Sprintf_d 7 = ''7''"
  by code_simp

lemma ReplaceURLEncoded_loop_skip:
  "placeholders pr tok = Some fn \<Longrightarrow> \<not> strings_Contains s tok \<Longrightarrow>
   ReplaceURLEncoded_loop clk e out (tok # rest) (s, pr)
   = ReplaceURLEncoded_loop clk e out rest (s, pr)"
  by (simp add: Let_def strings_Replace_absent)

section \<open>The supervisor\<close>

text \<open>
  Claim C2.  After \<^verbatim>\<open>RunCommand\<close> has returned, \<^verbatim>\<open>main\<close> reclassifies its result from the
  context's error: a deadline that was exceeded gives exit code 124 and the timeout message,
  whatever \<^verbatim>\<open>RunCommand\<close> returned; else a cancelled context together with an error from
  \<^verbatim>\<open>RunCommand\<close> gives 130 and the interruption message; in every other case the exit code
  and the output of \<^verbatim>\<open>RunCommand\<close> are kept as they are.
\<close>

theorem main_classify_cases:
  "(ctxErr = DeadlineExceeded \<longrightarrow>
      snd (main_classify ctxErr timeout (exitCode, output, err)) =
        (124, ''Command timed out after '' @ Sprintf_d timeout @ '' seconds''))
   \<and> (ctxErr \<noteq> DeadlineExceeded \<and> ctxErr = Canceled \<and> err \<noteq> None \<longrightarrow>
      snd (main_classify ctxErr timeout (exitCode, output, err)) =
        (130, ''Command was interrupted''))
   \<and> (ctxErr \<noteq> DeadlineExceeded \<and> \<not> (ctxErr = Canceled \<and> err \<noteq> None) \<longrightarrow>
      snd (main_classify ctxErr timeout (exitCode, output, err)) = (exitCode, output))"
  by (auto simp: main_classify_def)

theorem main_classify_cases_witness:
  "snd (main_classify DeadlineExceeded 30 (0, ''done'', None))
     = (124, ''Command timed out after 30 seconds'')
   \<and> snd (main_classify Canceled 0 (1, ''partial'', Some OtherError))
     = (130, ''Command was interrupted'')
   \<and> snd (main_classify Canceled 0 (0, ''done'', None)) = (0, ''done'')
   \<and> snd (main_classify NotDone 0 (42, ''failed'', Some (ExitError (WaitStatus 0x2A00))))
     = (42, ''failed'')"
  using main_classify_cases [of DeadlineExceeded 30 0 "''done''" None]
        main_classify_cases [of Canceled 0 1 "''partial''" "Some OtherError"]
        main_classify_cases [of Canceled 0 0 "''done''" None]
        main_classify_cases [of NotDone 0 42 "''failed''" "Some (ExitError (WaitStatus 0x2A00))"]
  by (simp add: Sprintf_d_30)

text \<open>
  Claim C4, as amended.  The exit code \<^verbatim>\<open>RunCommand\<close> returns is 0 when the error of the
  child is nil; what \<^verbatim>\<open>ExitStatus()\<close> reports when the error is an \<^verbatim>\<open>ExitError\<close> with a wait
  status, which is the exit status of the operating system when the child exited (so
  \<^verbatim>\<open>exit 42\<close>, and any status \<open>n\<close> below 256, gives \<open>n\<close>) and \<open>-1\<close> when it did not, as
  after a signal; and 1 when the command could not be started or the \<^verbatim>\<open>ExitError\<close> carries
  no wait status.
\<close>

theorem RunCommand_exitCode:
  "(run_err child = None \<longrightarrow> fst (snd (RunCommand fh cmd args child)) = 0)
   \<and> (run_err child = Some (ExitError (WaitStatus st)) \<and> Exited st \<longrightarrow>
        fst (snd (RunCommand fh cmd args child)) = uint (drop_bit 8 st AND 0xFF))
   \<and> (n < 256 \<and> run_err child = Some (ExitError (WaitStatus (push_bit 8 (word_of_nat n)))) \<longrightarrow>
        fst (snd (RunCommand fh cmd args child)) = int n)
   \<and> (run_err child = Some (ExitError OtherSys) \<longrightarrow> fst (snd (RunCommand fh cmd args child)) = 1)
   \<and> (run_err child = Some OtherError \<longrightarrow> fst (snd (RunCommand fh cmd args child)) = 1)
   \<and> (run_err child = Some (ExitError (WaitStatus st)) \<and> \<not> Exited st \<longrightarrow>
        fst (snd (RunCommand fh cmd args child)) = - 1)"
  by (simp add: RunCommand_def Let_def ExitStatus_exit) (simp add: ExitStatus_def)

theorem RunCommand_exitCode_witness:
  "fst (snd (RunCommand (NewFailHook False) ''sh'' [''-c'', ''exit 42''] exit_42)) = 42
   \<and> fst (snd (RunCommand (NewFailHook False) ''sh'' [''-c'', ''echo a; echo b >&2''] two_lines)) = 0
   \<and> fst (snd (RunCommand (NewFailHook False) ''nosuchcommand'' []
                 (exit_42\<lparr>run_err := Some OtherError\<rparr>))) = 1
   \<and> fst (snd (RunCommand (NewFailHook False) ''sh'' []
                 (exit_42\<lparr>run_err := Some (ExitError OtherSys)\<rparr>))) = 1
   \<and> fst (snd (RunCommand (NewFailHook False) ''sleep'' [''60''] killed)) = - 1"
  using RunCommand_exitCode [of exit_42 "NewFailHook False" "''sh''" "[''-c'', ''exit 42'']" "0x2A00" 42]
        RunCommand_exitCode [of killed "NewFailHook False" "''sleep''" "[''60'']" "0x0009"]
        RunCommand_exitCode [of two_lines "NewFailHook False" "''sh''" "[''-c'', ''echo a; echo b >&2'']"]
        RunCommand_exitCode [of "exit_42\<lparr>run_err := Some OtherError\<rparr>" "NewFailHook False"
                               "''nosuchcommand''" "[]"]
        RunCommand_exitCode [of "exit_42\<lparr>run_err := Some (ExitError OtherSys)\<rparr>" "NewFailHook False"
                               "''sh''" "[]"]
  by (simp add: exit_42_def two_lines_def killed_def Exited_def)

text \<open>
  Claim C4 as the specification states it fails: a child ended by signal 9 is an abnormal
  termination with no exit status, and \<^verbatim>\<open>RunCommand\<close> returns \<open>-1\<close> for it, not 1.
\<close>

theorem RunCommand_exitCode_counterexample:
  "run_err killed = Some (ExitError (WaitStatus 0x0009))
   \<and> Signaled 0x0009 \<and> \<not> Exited 0x0009
   \<and> fst (snd (RunCommand (NewFailHook False) ''sleep'' [''60''] killed)) = - 1
   \<and> fst (snd (RunCommand (NewFailHook False) ''sleep'' [''60''] killed)) \<noteq> 1"
  by (simp add: killed_def RunCommand_def ExitStatus_def Exited_def Signaled_def)

text \<open>
  Claim C3.  \<^verbatim>\<open>HandleFailure(e, o)\<close> calls \<^verbatim>\<open>Handle(e, o)\<close> once on every registered handler,
  in the order of registration (\<^verbatim>\<open>AddHandler\<close> appends), whatever the handlers return: the
  \<open>i\<close>-th call is the \<open>i\<close>-th handler's \<^verbatim>\<open>Handle\<close>, of its own type, run in the world the
  handlers before it have left, its result is what that \<^verbatim>\<open>Handle\<close> returns, and the world
  afterwards is the one all the handlers, one after the other, have made.  What
  \<^verbatim>\<open>HandleFailure\<close> writes to standard error is one line for each call that returned an
  error, with that handler's description and the error.  (This holds for every exit code,
  zero included.)  \<^verbatim>\<open>HandleFailure\<close> has no error of its own: it is a total function whose
  result has no error component.
\<close>

theorem HandleFailure_calls_every_handler:
  "map (\<lambda>(h, e', out', r). (h, e', out')) (calls (fst (HandleFailure env fh e out w)))
     = map (\<lambda>h. (h, e, out)) (handlers fh)
   \<and> calls (fst (HandleFailure env fh e out w))
     = map (\<lambda>i. (handlers fh ! i, e, out,
                  fst (Handle env (handlers fh ! i) e out
                         (foldl (\<lambda>w' h. snd (Handle env h e out w')) w (take i (handlers fh))))))
         [0 ..< length (handlers fh)]
   \<and> snd (HandleFailure env fh e out w)
     = foldl (\<lambda>w' h. snd (Handle env h e out w')) w (handlers fh)
   \<and> stderr_lines (fst (HandleFailure env fh e out w))
     = concat (map error_report (calls (fst (HandleFailure env fh e out w))))
   \<and> handlers (fst (AddHandler h fh)) = handlers fh @ [h]
   \<and> Handle env (Command c) = CommandHandler_Handle env c
   \<and> Handle env (Webhook wh) = WebhookHandler_Handle env wh
   \<and> Handle env (Syslog sy) = SyslogHandler_Handle env sy
   \<and> Handle env (Slack sl) = SlackHandler_Handle env sl
   \<and> Handle env (Custom handle description) = handle"
  unfolding HandleFailure_def
  using HandleFailure_loop_calls [of env "debug fh" e out "handlers fh" "[]" w]
        HandleFailure_loop_stderr [of "[]" env "debug fh" e out "handlers fh" w]
        HandleFailure_loop_results [of env "debug fh" e out "handlers fh" "[]" w]
        HandleFailure_loop_world [of env "debug fh" e out "handlers fh" "[]" w]
  by (simp add: AddHandler_def)

theorem HandleFailure_calls_every_handler_witness:
  "map (\<lambda>(h, e', out', r). (Description h, e', out', r))
     (calls (fst (HandleFailure sample_env
        \<lparr>handlers = [failing, Command (NewCommandHandler ''true''), passing], debug = True\<rparr>
        3 ''boom'' [])))
     = [(''first'', 3, ''boom'', Some ''refused''), (''Execute command: true'', 3, ''boom'', None),
        (''second'', 3, ''boom'', None)]
   \<and> snd (HandleFailure sample_env
        \<lparr>handlers = [failing, Command (NewCommandHandler ''true''), passing], debug = True\<rparr>
        3 ''boom'' [])
     = [Foreign ''boom'', Exec ''sh'' [''-c'', ''true''], Foreign ''boom'']
   \<and> stderr_lines (fst (HandleFailure sample_env
        \<lparr>handlers = [failing, Command (NewCommandHandler ''true''), passing], debug = True\<rparr>
        3 ''boom'' []))
     = [''Error with handler first: refused'' @ nl]"
  using HandleFailure_calls_every_handler
          [of sample_env
              "\<lparr>handlers = [failing, Command (NewCommandHandler ''true''), passing], debug = True\<rparr>"
              3 "''boom''" "[]"]
  by (simp add: HandleFailure_def failing_def passing_def error_report_def Command_true_Handle
        command_NewCommandHandler)

text \<open>
  Claim C5, as amended.  The combined output of \<^verbatim>\<open>RunCommand\<close> is the standard-output
  buffer followed at once by the standard-error buffer, neither trimmed by itself, and the
  whole then trimmed: what is cut off in front and behind consists of space runes only, and
  the result neither starts nor ends with a space rune.  White space where the two buffers
  meet stays.
\<close>

theorem RunCommand_output:
  "fst (snd (snd (RunCommand fh cmd args child)))
     = strings_TrimSpace (stdout_buf child @ stderr_buf child)
   \<and> (\<exists>pre suf. spaces pre \<and> spaces suf \<and>
         stdout_buf child @ stderr_buf child
           = pre @ fst (snd (snd (RunCommand fh cmd args child))) @ suf)
   \<and> \<not> leading_space (fst (snd (snd (RunCommand fh cmd args child))))
   \<and> \<not> trailing_space (fst (snd (snd (RunCommand fh cmd args child))))"
proof -
  let ?s = "stdout_buf child @ stderr_buf child"
  have out: "fst (snd (snd (RunCommand fh cmd args child))) = strings_TrimSpace ?s"
    by (simp add: RunCommand_def Let_def)
  from TrimLeft_decomp [of ?s] obtain pre where pre: "spaces pre" "?s = pre @ TrimLeft ?s"
    by blast
  from TrimRight_decomp [of "TrimLeft ?s"] obtain suf where
    suf: "spaces suf" "TrimLeft ?s = TrimRight (TrimLeft ?s) @ suf"
    by blast
  from pre(2) suf(2) have "?s = pre @ strings_TrimSpace ?s @ suf"
    by (simp add: strings_TrimSpace_def)
  with pre(1) suf(1)
  have "\<exists>pre suf. spaces pre \<and> spaces suf \<and> ?s = pre @ strings_TrimSpace ?s @ suf"
    by blast
  moreover have "\<not> leading_space (strings_TrimSpace ?s)"
    unfolding strings_TrimSpace_def
    by (rule TrimRight_keeps_no_leading) (rule TrimLeft_no_leading)
  moreover have "\<not> trailing_space (strings_TrimSpace ?s)"
    unfolding strings_TrimSpace_def by (rule TrimRight_no_trailing)
  ultimately show ?thesis using out by simp
qed

theorem RunCommand_output_witness:
  "fst (snd (snd (RunCommand (NewFailHook False) ''sh'' [''-c'', ''echo a; echo b >&2''] two_lines)))
     = [CHR ''a'', CHR 0x0A, CHR ''b'']"
  using RunCommand_output [of "NewFailHook False" "''sh''" "[''-c'', ''echo a; echo b >&2'']" two_lines]
  by (simp add: two_lines_def nl_def TrimSpace_a_nl_b_nl)

text \<open>
  Claim C5 as the specification states it fails: with \<^verbatim>\<open>a\<close> and a line feed on standard
  output and \<^verbatim>\<open>b\<close> and a line feed on standard error, the line feed between them is kept.
\<close>

theorem RunCommand_output_counterexample:
  "fst (snd (snd (RunCommand (NewFailHook False) ''sh'' [''-c'', ''echo a; echo b >&2''] two_lines)))
     \<noteq> spec_combinedOutput (stdout_buf two_lines) (stderr_buf two_lines)"
  by (simp add: RunCommand_def spec_combinedOutput_def two_lines_def nl_def TrimSpace_a_nl_b_nl
        TrimSpace_a_nl TrimSpace_b_nl TrimSpace_a_b)

text \<open>
  Claim C1 at the command line \<^verbatim>\<open>failhook -c true -- sh -c "exit 42"\<close>: the exit code
  resolves to 42 and the handler is called with it, but \<^verbatim>\<open>main\<close> then returns, and the
  process ends with status 0.
\<close>

theorem main_failed_run_exit_status:
  "fst (main sample_env sample_flags sample_run sample_Args []) = 0
   \<and> map (\<lambda>(h, e, out, r). (Description h, e, out))
       (calls (fst (snd (main sample_env sample_flags sample_run sample_Args []))))
     = [(''Execute command: true'', 42, [])]"
  by (simp add: main_def sepIndex_of_def sample_Args_def sample_flags_def Parse_def defaults_def
        main_register_def add_def AddHandler_def NewFailHook_def sample_run_def exit_42_def
        RunCommand_def ExitStatus_def Exited_def main_classify_def main_finish_def
        HandleFailure_def CommandHandler_Handle_def NewCommandHandler_def Replace_def
        sample_env_def Replace_loop_absent [OF true_has_no_token] TrimSpace_Nil Let_def
        signal_line_def)

text \<open>
  Claim C9.  Whatever flags were given and in whatever order, \<^verbatim>\<open>main\<close> registers the
  handlers the variables ask for in the order Command, Webhook, Syslog, Slack (their ranks
  increase strictly along the list), and \<^verbatim>\<open>HandleFailure\<close> calls them in that order.  When
  no flag is given twice, rearranging the flags leaves the registered handlers the same.
\<close>

theorem main_register_order:
  "handlers (fst (main_register (Parse fs) (NewFailHook d))) = configured (Parse fs)
   \<and> sorted_wrt (<) (map rank (handlers (fst (main_register (Parse fs) (NewFailHook d)))))
   \<and> map fst (calls (fst (HandleFailure env (fst (main_register (Parse fs) (NewFailHook d)))
                             e out w)))
       = configured (Parse fs)
   \<and> (mset fs' = mset fs \<and> distinct (map flag_name fs) \<longrightarrow>
        handlers (fst (main_register (Parse fs') (NewFailHook d)))
        = handlers (fst (main_register (Parse fs) (NewFailHook d))))"
  using Parse_permute [of fs' fs]
  by (auto simp: main_register_handlers configured_sorted calls_handlers)

theorem main_register_order_witness:
  "map rank (handlers (fst (main_register
       (Parse [Flag_slack_webhook ''http://hooks'', Flag_s ''failed'', Flag_c ''true''])
       (NewFailHook False))))
     = [0, 2, 3]
   \<and> handlers (fst (main_register
         (Parse [Flag_c ''true'', Flag_slack_webhook ''http://hooks'', Flag_s ''failed''])
         (NewFailHook False)))
     = handlers (fst (main_register
         (Parse [Flag_slack_webhook ''http://hooks'', Flag_s ''failed'', Flag_c ''true''])
         (NewFailHook False)))"
proof -
  have perm: "mset [Flag_c ''true'', Flag_slack_webhook ''http://hooks'', Flag_s ''failed'']
              = mset [Flag_slack_webhook ''http://hooks'', Flag_s ''failed'', Flag_c ''true'']"
    by (simp add: add_mset_commute)
  have once: "distinct (map flag_name
                [Flag_slack_webhook ''http://hooks'', Flag_s ''failed'', Flag_c ''true''])"
    by simp
  from perm once
       main_register_order
         [of "[Flag_slack_webhook ''http://hooks'', Flag_s ''failed'', Flag_c ''true'']" False
             sample_env 1 "[]" "[]"
             "[Flag_c ''true'', Flag_slack_webhook ''http://hooks'', Flag_s ''failed'']"]
  show ?thesis
    by (simp add: configured_def Parse_def defaults_def)
qed

section \<open>The placeholder registry\<close>

text \<open>
  Claim C10.  \<^verbatim>\<open>Replace\<close> and \<^verbatim>\<open>ReplaceURLEncoded\<close> leave the registry as they found it:
  the registry after the call is the registry before it, so a later substitution gives the
  same result whether or not they were called before, while \<^verbatim>\<open>Register\<close> does change what is
  registered.
\<close>

theorem Replace_leaves_registry:
  "snd (Replace p text e out pr) = pr
   \<and> snd (ReplaceURLEncoded p text e out pr) = pr
   \<and> Replace p' text' e' out' (snd (Replace p text e out pr)) = Replace p' text' e' out' pr
   \<and> Replace p' text' e' out' (snd (ReplaceURLEncoded p text e out pr))
       = Replace p' text' e' out' pr
   \<and> placeholders (Register tok fn pr) = (placeholders pr)(tok \<mapsto> fn)"
  by (simp add: Replace_def ReplaceURLEncoded_def Replace_loop_frame ReplaceURLEncoded_loop_frame
        Register_def)

text \<open>
  Claim C7, as amended.  \<^verbatim>\<open>Replace\<close> returns the text unchanged when the text contains
  none of the registered tokens.  It returns it unchanged only then, provided the values do
  not bring back what the tokens take away: when some kind of character occurs in every
  registered token and in none of the values substituted, the text comes back unchanged if
  and only if it contains none of the registered tokens, in whatever order the tokens are
  visited.  For the built-in registry the underscore is such a character as soon as the
  output and the three renderings of the clock have no underscore.
\<close>

theorem Replace_unchanged:
  "((\<forall>tok \<in> dom (placeholders pr). \<not> strings_Contains tmpl tok) \<longrightarrow>
      fst (Replace p tmpl e out pr) = tmpl)
   \<and> (range_order pr (visit p)
       \<and> (\<forall>tok fn. placeholders pr tok = Some fn \<longrightarrow>
             (\<exists>x \<in> set tok. m x) \<and> (\<forall>x \<in> set (fn (clock p tok) e out). \<not> m x)) \<longrightarrow>
       (fst (Replace p tmpl e out pr) = tmpl
        \<longleftrightarrow> (\<forall>tok \<in> dom (placeholders pr). \<not> strings_Contains tmpl tok)))
   \<and> (range_order NewPlaceholderRegistry (visit p)
       \<and> CHR ''_'' \<notin> set out
       \<and> CHR ''_'' \<notin> set (rfc3339 (clock p ''__TIMESTAMP__''))
       \<and> CHR ''_'' \<notin> set (date (clock p ''__DATE__''))
       \<and> CHR ''_'' \<notin> set (time_of_day (clock p ''__TIME__'')) \<longrightarrow>
       (fst (Replace p tmpl e out NewPlaceholderRegistry) = tmpl
        \<longleftrightarrow> (\<forall>tok \<in> dom (placeholders NewPlaceholderRegistry). \<not> strings_Contains tmpl tok)))"
proof (intro conjI impI)
  assume "\<forall>tok \<in> dom (placeholders pr). \<not> strings_Contains tmpl tok"
  then show "fst (Replace p tmpl e out pr) = tmpl" by (rule Replace_absent)
next
  assume "range_order pr (visit p)
       \<and> (\<forall>tok fn. placeholders pr tok = Some fn \<longrightarrow>
             (\<exists>x \<in> set tok. m x) \<and> (\<forall>x \<in> set (fn (clock p tok) e out). \<not> m x))"
  then show "fst (Replace p tmpl e out pr) = tmpl
        \<longleftrightarrow> (\<forall>tok \<in> dom (placeholders pr). \<not> strings_Contains tmpl tok)"
    using Replace_marked_iff [of pr p m e out tmpl] by blast
next
  assume a: "range_order NewPlaceholderRegistry (visit p)
       \<and> CHR ''_'' \<notin> set out
       \<and> CHR ''_'' \<notin> set (rfc3339 (clock p ''__TIMESTAMP__''))
       \<and> CHR ''_'' \<notin> set (date (clock p ''__DATE__''))
       \<and> CHR ''_'' \<notin> set (time_of_day (clock p ''__TIME__''))"
  then have "\<forall>tok fn. placeholders NewPlaceholderRegistry tok = Some fn \<longrightarrow>
           (\<exists>x \<in> set tok. x = CHR ''_'') \<and> (\<forall>x \<in> set (fn (clock p tok) e out). x \<noteq> CHR ''_'')"
    by (intro builtin_marked) simp_all
  with a show "fst (Replace p tmpl e out NewPlaceholderRegistry) = tmpl
        \<longleftrightarrow> (\<forall>tok \<in> dom (placeholders NewPlaceholderRegistry). \<not> strings_Contains tmpl tok)"
    using Replace_marked_iff [of NewPlaceholderRegistry p "\<lambda>x. x = CHR ''_''" e out tmpl]
    by blast
qed

theorem Replace_unchanged_witness:
  "fst (Replace sample_pass ''true'' 1 [] NewPlaceholderRegistry) = ''true''
   \<and> fst (Replace sample_pass ''Exit code: __STATUS_CODE__'' 42 ''some output'' NewPlaceholderRegistry)
       \<noteq> ''Exit code: __STATUS_CODE__''"
proof -
  have "fst (Replace sample_pass ''true'' 1 [] NewPlaceholderRegistry) = ''true''"
    using Replace_unchanged [where ?pr = NewPlaceholderRegistry and tmpl = "''true''"
                               and p = sample_pass and e = 1 and out = "[]"]
          true_builtin
    by blast
  moreover have "CHR ''_'' \<notin> set ''some output''" by simp
  then have "fst (Replace sample_pass ''Exit code: __STATUS_CODE__'' 42 ''some output''
                    NewPlaceholderRegistry) = ''Exit code: __STATUS_CODE__''
             \<longleftrightarrow> (\<forall>tok \<in> dom (placeholders NewPlaceholderRegistry).
                    \<not> strings_Contains ''Exit code: __STATUS_CODE__'' tok)"
    using Replace_unchanged [where tmpl = "''Exit code: __STATUS_CODE__''" and p = sample_pass
                               and e = 42 and out = "''some output''"]
          sample_pass_admissible sample_clock_no_underscore
    by blast
  moreover have "''__STATUS_CODE__'' \<in> dom (placeholders NewPlaceholderRegistry)"
    unfolding builtin_dom by simp
  ultimately show ?thesis using exit_code_text by blast
qed

text \<open>
  Claim C7 as the specification states it fails: with the built-in registry and the output
  \<^verbatim>\<open>__OUTPUT__\<close>, the text \<^verbatim>\<open>__OUTPUT__\<close> contains a registered token and still comes back
  unchanged.
\<close>

theorem Replace_unchanged_counterexample:
  "fst (Replace sample_pass ''__OUTPUT__'' 1 ''__OUTPUT__'' NewPlaceholderRegistry) = ''__OUTPUT__''
   \<and> strings_Contains ''__OUTPUT__'' ''__OUTPUT__''
   \<and> ''__OUTPUT__'' \<in> dom (placeholders NewPlaceholderRegistry)
   \<and> range_order NewPlaceholderRegistry (visit sample_pass)"
proof -
  have "fst (Replace sample_pass ''__OUTPUT__'' 1 ''__OUTPUT__'' NewPlaceholderRegistry) = ''__OUTPUT__''"
    unfolding Replace_def sample_pass_def
    by (simp only: Pass.simps Replace_loop_Cons [OF builtin_DATE] Replace_loop_Cons [OF builtin_OUTPUT]
        Replace_loop_Cons [OF builtin_TIME] Replace_loop_Cons [OF builtin_STATUS_CODE]
        Replace_loop_Cons [OF builtin_TIMESTAMP] output_absent [THEN strings_Replace_absent]
        strings_Replace_same Replace_loop.simps(1) fst_conv)
  moreover have "strings_Contains ''__OUTPUT__'' ''__OUTPUT__''"
    by (simp add: strings_Contains_def)
  moreover have "''__OUTPUT__'' \<in> dom (placeholders NewPlaceholderRegistry)"
    unfolding builtin_dom by simp
  ultimately show ?thesis using sample_pass_admissible by simp
qed

text \<open>
  Claim C6, as amended.  \<^verbatim>\<open>ReplaceURLEncoded\<close> gives what \<^verbatim>\<open>Replace\<close> gives on the
  registry whose functions return their values escaped with \<^verbatim>\<open>url.QueryEscape\<close>; the text
  itself is never escaped.  Each step of its loop cuts the text it has reached at the
  occurrences of the token it visits into pieces, taking for a non-empty token the leftmost
  occurrence after each cut (\<open>leftmost\<close>), keeps the pieces byte for byte and puts the
  escaped value between them.  When no registered token other than \<open>tok\<close> occurs in the
  template or in the text after the substitution of \<open>tok\<close>, the result is the template
  with these occurrences of \<open>tok\<close> replaced by its escaped value and everything else as
  it was.  With the built-in registry, in whatever order its tokens are visited, the output
  \<^verbatim>\<open>Error & Warning\<close> is substituted for \<^verbatim>\<open>__OUTPUT__\<close> as \<^verbatim>\<open>Error+%26+Warning\<close>.
  The escaping works byte by byte, turns a space into \<^verbatim>\<open>+\<close> and writes every reserved
  character as a percent sign and two hexadecimal digits.
\<close>

theorem ReplaceURLEncoded_escapes_values:
  "fst (ReplaceURLEncoded p tmpl e out pr) = fst (Replace p tmpl e out (escaped pr))
   \<and> fst (ReplaceURLEncoded (p\<lparr>visit := take 0 (visit p)\<rparr>) tmpl e out pr) = tmpl
   \<and> ReplaceURLEncoded (p\<lparr>visit := take (length (visit p)) (visit p)\<rparr>) tmpl e out pr
       = ReplaceURLEncoded p tmpl e out pr
   \<and> (\<forall>k < length (visit p).
         case placeholders pr (visit p ! k) of
           None \<Rightarrow>
             fst (ReplaceURLEncoded (p\<lparr>visit := take (Suc k) (visit p)\<rparr>) tmpl e out pr)
             = fst (ReplaceURLEncoded (p\<lparr>visit := take k (visit p)\<rparr>) tmpl e out pr)
         | Some fn \<Rightarrow>
             \<exists>ps. (visit p ! k \<noteq> [] \<longrightarrow> leftmost (visit p ! k) ps)
                \<and> fst (ReplaceURLEncoded (p\<lparr>visit := take k (visit p)\<rparr>) tmpl e out pr)
                    = strings_Join ps (visit p ! k)
                \<and> fst (ReplaceURLEncoded (p\<lparr>visit := take (Suc k) (visit p)\<rparr>) tmpl e out pr)
                    = strings_Join ps (url_QueryEscape (fn (clock p (visit p ! k)) e out)))
   \<and> (range_order pr (visit p) \<and> placeholders pr tok = Some fn
       \<and> (\<forall>t \<in> dom (placeholders pr). t \<noteq> tok \<longrightarrow>
             \<not> strings_Contains tmpl t
             \<and> \<not> strings_Contains
                   (strings_Replace tmpl tok (url_QueryEscape (fn (clock p tok) e out))) t) \<longrightarrow>
        (\<exists>ps. (tok \<noteq> [] \<longrightarrow> leftmost tok ps)
            \<and> tmpl = strings_Join ps tok
            \<and> fst (ReplaceURLEncoded p tmpl e out pr)
                = strings_Join ps (url_QueryEscape (fn (clock p tok) e out))))
   \<and> (range_order NewPlaceholderRegistry (visit p) \<longrightarrow>
        fst (ReplaceURLEncoded p ''https://example.com?output=__OUTPUT__'' e ''Error & Warning''
               NewPlaceholderRegistry)
        = ''https://example.com?output=Error+%26+Warning'')
   \<and> url_QueryEscape (a @ b) = url_QueryEscape a @ url_QueryEscape b
   \<and> url_QueryEscape '' '' = ''+''
   \<and> (c \<in> set ''$&+,/:;=?@'' \<longrightarrow>
        url_QueryEscape [c] = [CHR ''%'', upperhex (of_char c div 16), upperhex (of_char c)])"
proof (intro conjI impI allI)
  show "fst (ReplaceURLEncoded p tmpl e out pr) = fst (Replace p tmpl e out (escaped pr))"
    by (simp add: ReplaceURLEncoded_def Replace_def ReplaceURLEncoded_loop_escaped)
next
  show "fst (ReplaceURLEncoded (p\<lparr>visit := take 0 (visit p)\<rparr>) tmpl e out pr) = tmpl"
    by (simp add: ReplaceURLEncoded_def)
next
  show "ReplaceURLEncoded (p\<lparr>visit := take (length (visit p)) (visit p)\<rparr>) tmpl e out pr
       = ReplaceURLEncoded p tmpl e out pr"
    by (simp add: ReplaceURLEncoded_def)
next
  fix k assume "k < length (visit p)"
  then show "case placeholders pr (visit p ! k) of
           None \<Rightarrow>
             fst (ReplaceURLEncoded (p\<lparr>visit := take (Suc k) (visit p)\<rparr>) tmpl e out pr)
             = fst (ReplaceURLEncoded (p\<lparr>visit := take k (visit p)\<rparr>) tmpl e out pr)
         | Some fn \<Rightarrow>
             \<exists>ps. (visit p ! k \<noteq> [] \<longrightarrow> leftmost (visit p ! k) ps)
                \<and> fst (ReplaceURLEncoded (p\<lparr>visit := take k (visit p)\<rparr>) tmpl e out pr)
                    = strings_Join ps (visit p ! k)
                \<and> fst (ReplaceURLEncoded (p\<lparr>visit := take (Suc k) (visit p)\<rparr>) tmpl e out pr)
                    = strings_Join ps (url_QueryEscape (fn (clock p (visit p ! k)) e out))"
    using ReplaceURLEncoded_stage [where ?k = k and ?vs = "visit p" and ?pr = pr
                                     and ?clk = "clock p" and ?e = e and ?out = out and ?s = tmpl]
    by (simp add: ReplaceURLEncoded_def split: option.splits)
next
  assume a: "range_order pr (visit p) \<and> placeholders pr tok = Some fn
       \<and> (\<forall>t \<in> dom (placeholders pr). t \<noteq> tok \<longrightarrow>
             \<not> strings_Contains tmpl t
             \<and> \<not> strings_Contains
                   (strings_Replace tmpl tok (url_QueryEscape (fn (clock p tok) e out))) t)"
  let ?v = "url_QueryEscape (fn (clock p tok) e out)"
  from a have "distinct (visit p)" and "tok \<in> set (visit p)"
    and "\<forall>t \<in> set (visit p). t \<noteq> tok \<longrightarrow>
           \<not> strings_Contains tmpl t \<and> \<not> strings_Contains (strings_Replace tmpl tok ?v) t"
    by (auto simp: range_order_def)
  with a have "fst (ReplaceURLEncoded_loop (clock p) e out (visit p) (tmpl, pr))
               = strings_Replace tmpl tok ?v"
    by (intro ReplaceURLEncoded_loop_only [where tok = tok and fn = fn]) simp_all
  moreover from strings_Replace_pieces [of tok tmpl] obtain ps where
    "tok \<noteq> [] \<longrightarrow> leftmost tok ps"
    "tmpl = strings_Join ps tok" "\<forall>new. strings_Replace tmpl tok new = strings_Join ps new"
    by blast
  ultimately show "\<exists>ps. (tok \<noteq> [] \<longrightarrow> leftmost tok ps)
            \<and> tmpl = strings_Join ps tok
            \<and> fst (ReplaceURLEncoded p tmpl e out pr) = strings_Join ps ?v"
    unfolding ReplaceURLEncoded_def by auto
next
  assume "range_order NewPlaceholderRegistry (visit p)"
  then show "fst (ReplaceURLEncoded p ''https://example.com?output=__OUTPUT__'' e ''Error & Warning''
               NewPlaceholderRegistry)
        = ''https://example.com?output=Error+%26+Warning''"
    unfolding ReplaceURLEncoded_def by (rule url_example)
next
  show "url_QueryEscape (a @ b) = url_QueryEscape a @ url_QueryEscape b"
    by (simp add: url_QueryEscape_def)
next
  show "url_QueryEscape '' '' = ''+''"
    by (simp add: url_QueryEscape_def escape_byte_def shouldEscape_def alnum_def)
next
  assume "c \<in> set ''$&+,/:;=?@''"
  then show "url_QueryEscape [c] = [CHR ''%'', upperhex (of_char c div 16), upperhex (of_char c)]"
    by (auto simp: url_QueryEscape_def escape_byte_def shouldEscape_def alnum_def)
qed

theorem ReplaceURLEncoded_escapes_values_witness:
  "fst (ReplaceURLEncoded sample_pass ''https://example.com?output=__OUTPUT__'' 0 ''Error & Warning''
          NewPlaceholderRegistry)
     = ''https://example.com?output=Error+%26+Warning''
   \<and> (\<exists>ps. leftmost ''__OUTPUT__'' ps
          \<and> ''https://example.com?output=__OUTPUT__'' = strings_Join ps ''__OUTPUT__''
          \<and> fst (ReplaceURLEncoded sample_pass ''https://example.com?output=__OUTPUT__'' 0
                    ''Error & Warning'' NewPlaceholderRegistry)
              = strings_Join ps ''Error+%26+Warning'')
   \<and> (\<exists>ps. leftmost ''__OUTPUT__'' ps
          \<and> fst (ReplaceURLEncoded (sample_pass\<lparr>visit := take 1 (visit sample_pass)\<rparr>)
                    ''https://example.com?output=__OUTPUT__'' 0 ''Error & Warning''
                    NewPlaceholderRegistry)
              = strings_Join ps ''__OUTPUT__''
          \<and> fst (ReplaceURLEncoded (sample_pass\<lparr>visit := take (Suc 1) (visit sample_pass)\<rparr>)
                    ''https://example.com?output=__OUTPUT__'' 0 ''Error & Warning''
                    NewPlaceholderRegistry)
              = strings_Join ps ''Error+%26+Warning'')"
proof -
  note inst = ReplaceURLEncoded_escapes_values
               [where ?p = sample_pass and ?tmpl = "''https://example.com?output=__OUTPUT__''"
                  and ?e = 0 and ?out = "''Error & Warning''" and ?pr = NewPlaceholderRegistry
                  and ?tok = "''__OUTPUT__''" and ?fn = "\<lambda>_ _ output. output"]
  have h: "\<forall>t \<in> dom (placeholders NewPlaceholderRegistry). t \<noteq> ''__OUTPUT__'' \<longrightarrow>
             \<not> strings_Contains ''https://example.com?output=__OUTPUT__'' t
             \<and> \<not> strings_Contains
                   (strings_Replace ''https://example.com?output=__OUTPUT__'' ''__OUTPUT__''
                      (url_QueryEscape ''Error & Warning'')) t"
    unfolding builtin_dom QueryEscape_sample url_step
    using url_template_others url_result_all by simp
  have k: "(1::nat) < length (visit sample_pass)" by (simp add: sample_pass_def)
  have v: "visit sample_pass ! 1 = ''__OUTPUT__''" by (simp add: sample_pass_def)
  note stages = inst [THEN conjunct2, THEN conjunct2, THEN conjunct2, THEN conjunct1]
  note only = inst [THEN conjunct2, THEN conjunct2, THEN conjunct2, THEN conjunct2, THEN conjunct1]
  note example = inst [THEN conjunct2, THEN conjunct2, THEN conjunct2, THEN conjunct2,
                       THEN conjunct2, THEN conjunct1]
  from example [rule_format, OF sample_pass_admissible]
  have A: "fst (ReplaceURLEncoded sample_pass ''https://example.com?output=__OUTPUT__'' 0
                  ''Error & Warning'' NewPlaceholderRegistry)
           = ''https://example.com?output=Error+%26+Warning''" .
  from only [rule_format, OF conjI [OF sample_pass_admissible conjI [OF builtin_OUTPUT h]]]
  have B: "\<exists>ps. (''__OUTPUT__'' \<noteq> [] \<longrightarrow> leftmost ''__OUTPUT__'' ps)
          \<and> ''https://example.com?output=__OUTPUT__'' = strings_Join ps ''__OUTPUT__''
          \<and> fst (ReplaceURLEncoded sample_pass ''https://example.com?output=__OUTPUT__'' 0
                    ''Error & Warning'' NewPlaceholderRegistry)
              = strings_Join ps (url_QueryEscape ''Error & Warning'')" .
  from stages [rule_format, OF k]
  have C: "\<exists>ps. (''__OUTPUT__'' \<noteq> [] \<longrightarrow> leftmost ''__OUTPUT__'' ps)
          \<and> fst (ReplaceURLEncoded (sample_pass\<lparr>visit := take 1 (visit sample_pass)\<rparr>)
                    ''https://example.com?output=__OUTPUT__'' 0 ''Error & Warning''
                    NewPlaceholderRegistry)
              = strings_Join ps ''__OUTPUT__''
          \<and> fst (ReplaceURLEncoded (sample_pass\<lparr>visit := take (Suc 1) (visit sample_pass)\<rparr>)
                    ''https://example.com?output=__OUTPUT__'' 0 ''Error & Warning''
                    NewPlaceholderRegistry)
              = strings_Join ps (url_QueryEscape ''Error & Warning'')"
    unfolding v builtin_OUTPUT by (simp only: option.case)
  have ne: "(''__OUTPUT__'' \<noteq> []) = True" by simp
  from A B C show ?thesis by (simp only: QueryEscape_sample ne simp_thms)
qed

text \<open>
  Claim C6 as the specification states it fails: in the template \<^verbatim>\<open>__OUTPUT__TATUS_CODE__\<close>
  only \<^verbatim>\<open>__OUTPUT__\<close> is a token, but with the output \<^verbatim>\<open>__S\<close> and the exit code 7 the
  characters \<^verbatim>\<open>TATUS_CODE__\<close> of the template do not stay: the value and they make up the
  token \<^verbatim>\<open>__STATUS_CODE__\<close>, which a later step replaces.
\<close>

theorem ReplaceURLEncoded_escapes_values_counterexample:
  "range_order NewPlaceholderRegistry (visit sample_pass)
   \<and> ''__OUTPUT__TATUS_CODE__'' = ''__OUTPUT__'' @ ''TATUS_CODE__''
   \<and> \<not> strings_Contains ''__OUTPUT__TATUS_CODE__'' ''__STATUS_CODE__''
   \<and> \<not> strings_Contains ''__OUTPUT__TATUS_CODE__'' ''__TIMESTAMP__''
   \<and> \<not> strings_Contains ''__OUTPUT__TATUS_CODE__'' ''__DATE__''
   \<and> \<not> strings_Contains ''__OUTPUT__TATUS_CODE__'' ''__TIME__''
   \<and> fst (ReplaceURLEncoded sample_pass ''__OUTPUT__TATUS_CODE__'' 7 ''__S'' NewPlaceholderRegistry)
       = ''7''
   \<and> fst (ReplaceURLEncoded sample_pass ''__OUTPUT__TATUS_CODE__'' 7 ''__S'' NewPlaceholderRegistry)
       \<noteq> url_QueryEscape ''__S'' @ ''TATUS_CODE__''
   \<and> \<not> strings_Contains
         (fst (ReplaceURLEncoded sample_pass ''__OUTPUT__TATUS_CODE__'' 7 ''__S''
                 NewPlaceholderRegistry))
         ''TATUS_CODE__''"
proof -
  have r: "fst (ReplaceURLEncoded sample_pass ''__OUTPUT__TATUS_CODE__'' 7 ''__S''
                  NewPlaceholderRegistry) = ''7''"
    unfolding ReplaceURLEncoded_def sample_pass_def
    by (simp only: Pass.simps
          ReplaceURLEncoded_loop_skip [OF builtin_DATE overlap_steps(1)]
          ReplaceURLEncoded_loop_Cons [OF builtin_OUTPUT] overlap_values overlap_steps(2)
          ReplaceURLEncoded_loop_skip [OF builtin_TIME overlap_steps(3)]
          ReplaceURLEncoded_loop_Cons [OF builtin_STATUS_CODE] Sprintf_d_7 overlap_steps(4)
          ReplaceURLEncoded_loop_skip [OF builtin_TIMESTAMP overlap_steps(5)]
          ReplaceURLEncoded_loop.simps(1) fst_conv)
  have "''7'' \<noteq> url_QueryEscape ''__S'' @ ''TATUS_CODE__''"
    by (simp add: overlap_values)
  with r sample_pass_admissible overlap_template overlap_steps(1) show ?thesis
    by simp
qed

section \<open>The Slack handler\<close>

text \<open>
  Claim C8.  \<^verbatim>\<open>Handle\<close> of a Slack handler posts one request to the webhook URL, with
  content type \<^verbatim>\<open>application/json\<close> and a JSON object as its body.  The object always has
  the member \<^verbatim>\<open>text\<close>, the message with its placeholders replaced (coerced to valid UTF-8,
  as every string \<^verbatim>\<open>json.Marshal\<close> writes); it has the member
  \<^verbatim>\<open>channel\<close> exactly when the channel is not empty and the member \<^verbatim>\<open>username\<close> exactly
  when the user name is not empty, and no other member.  The user name of a handler made
  without options is \<^verbatim>\<open>FailHook\<close>.  \<^verbatim>\<open>Handle\<close> returns nil exactly when the post
  succeeds with status 200.
\<close>

theorem SlackHandler_Handle_payload:
  "\<exists>members.
     snd (SlackHandler_Handle env h e out w)
       = w @ [HTTPPost (slack_webhookURL h) ''application/json'' (JObject members)]
   \<and> distinct (map fst members)
   \<and> set (map fst members) \<subseteq> {''text'', ''channel'', ''username''}
   \<and> map_of members ''text''
       = Some (JString (coerce_utf8
                 (fst (Replace (pass_at env w) (slack_message h) e out (slack_registry h)))))
   \<and> map_of members ''channel''
       = (if channel h = [] then None else Some (JString (coerce_utf8 (channel h))))
   \<and> map_of members ''username''
       = (if username h = [] then None else Some (JString (coerce_utf8 (username h))))
   \<and> (fst (SlackHandler_Handle env h e out w) = None
        \<longleftrightarrow> http_Post env w (slack_webhookURL h) ''application/json'' (JObject members) = Inr 200)
   \<and> username (NewSlackHandler u m []) = ''FailHook''
   \<and> channel (NewSlackHandler u m []) = []"
  by (cases "http_Post env w (slack_webhookURL h) ''application/json'' (JObject
       ([(''text'', JString (coerce_utf8
           (fst (Replace (pass_at env w) (slack_message h) e out (slack_registry h)))))]
        @ (if channel h = [] then [] else [(''channel'', JString (coerce_utf8 (channel h)))])
        @ (if username h = [] then [] else [(''username'', JString (coerce_utf8 (username h)))])))")
     (auto simp: SlackHandler_Handle_def json_Marshal_def Let_def NewSlackHandler_def)

theorem SlackHandler_Handle_payload_witness:
  "SlackHandler_Handle sample_env sample_slack 127 ''command not found'' []
   = (None,
      [HTTPPost ''http://hooks'' ''application/json''
         (JObject [(''text'', JString ''Error: 127 - command not found''),
                   (''channel'', JString ''#testing''), (''username'', JString ''TestBot'')])])"
  using SlackHandler_Handle_payload [of sample_env sample_slack 127 "''command not found''" "[]"]
        sample_message_replaced
  by (simp add: SlackHandler_Handle_def json_Marshal_def Let_def sample_slack_def
        NewSlackHandler_def WithChannel_def WithUsername_def sample_env_def sample_strings_ascii)

end
